theory Spec2Isabelle
  imports Main "HOL-Library.Word"
begin

section \<open>Bytes, strings and the Go library functions the code calls\<close>

text \<open>
  Go's \<^verbatim>\<open>[]byte\<close> and \<^verbatim>\<open>string\<close> are both sequences of bytes; a byte is a
  \<^typ>\<open>char\<close>. An index result of \<^verbatim>\<open>-1\<close> is \<^term>\<open>None\<close>.
\<close>

type_synonym bytes = "char list"

abbreviation LF :: char where "LF \<equiv> CHR 0x0A"

abbreviation NUL :: char where "NUL \<equiv> CHR 0x00"

abbreviation SP :: char where "SP \<equiv> CHR '' ''"

text \<open>\<^verbatim>\<open>bytes.IndexByte\<close>: the index of the first occurrence.\<close>

fun IndexByte :: "bytes \<Rightarrow> char \<Rightarrow> nat option" where
  "IndexByte [] c = None"
| "IndexByte (x # xs) c = (if x = c then Some 0 else map_option Suc (IndexByte xs c))"

text \<open>\<^verbatim>\<open>bytes.LastIndexByte\<close>: the index of the last occurrence.\<close>

definition LastIndexByte :: "bytes \<Rightarrow> char \<Rightarrow> nat option" where
  "LastIndexByte xs c =
     (case IndexByte (rev xs) c of
        None \<Rightarrow> None
      | Some i \<Rightarrow> Some (length xs - 1 - i))"

text \<open>\<^verbatim>\<open>strings.Contains(s, "\n")\<close>.\<close>

definition Contains_LF :: "string \<Rightarrow> bool" where
  "Contains_LF s = (IndexByte s LF \<noteq> None)"

text \<open>Decimal digits, and \<^verbatim>\<open>%d\<close> of an integer.\<close>

definition digit_char :: "nat \<Rightarrow> char" where
  "digit_char d = char_of (48 + d)"

fun decimal :: "nat \<Rightarrow> string" where
  "decimal n = (if n < 10 then [digit_char n] else decimal (n div 10) @ [digit_char (n mod 10)])"

declare decimal.simps [simp del]

definition FormatInt :: "int \<Rightarrow> string" where
  "FormatInt i = (if i < 0 then CHR ''-'' # decimal (nat (- i)) else decimal (nat i))"

definition is_digit :: "char \<Rightarrow> bool" where
  "is_digit c = (48 \<le> (of_char c :: nat) \<and> (of_char c :: nat) \<le> 57)"

definition digit_val :: "char \<Rightarrow> nat" where
  "digit_val c = of_char c - 48"

definition digits_val :: "string \<Rightarrow> nat" where
  "digits_val ds = foldl (\<lambda>acc c. acc * 10 + digit_val c) 0 ds"

datatype num_error = ErrSyntax | ErrRange

text \<open>
  \<^verbatim>\<open>strconv.ParseInt(s, 10, 64)\<close>: an optional sign, at least one decimal digit and
  nothing else; a value outside the 64-bit signed range is a range error.
\<close>

definition ParseInt :: "string \<Rightarrow> num_error + int" where
  "ParseInt s =
     (case s of
        [] \<Rightarrow> Inl ErrSyntax
      | c # cs \<Rightarrow>
          (let neg = (c = CHR ''-'');
               ds = (if c = CHR ''+'' \<or> c = CHR ''-'' then cs else s)
           in if ds = [] \<or> \<not> list_all is_digit ds then Inl ErrSyntax
              else (let un = digits_val ds
                    in if \<not> neg \<and> un \<ge> 2 ^ 63 then Inl ErrRange
                       else if neg \<and> un > 2 ^ 63 then Inl ErrRange
                       else Inr (if neg then - int un else int un))))"

text \<open>Lower-case hexadecimal, as \<^verbatim>\<open>%x\<close> prints a byte array.\<close>

definition hex_digit :: "nat \<Rightarrow> char" where
  "hex_digit d = (if d < 10 then char_of (48 + d) else char_of (87 + d))"

fun hex_encode :: "bytes \<Rightarrow> string" where
  "hex_encode [] = []"
| "hex_encode (b # bs) =
     hex_digit (of_char b div 16) # hex_digit (of_char b mod 16) # hex_encode bs"

text \<open>
  \<^verbatim>\<open>encoding/hex\<close>'s table: the digits \<^verbatim>\<open>0-9\<close> (bytes 48 to 57), and the
  letters \<^verbatim>\<open>a-f\<close> (97 to 102) and \<^verbatim>\<open>A-F\<close> (65 to 70).
\<close>

definition fromHexChar :: "char \<Rightarrow> nat option" where
  "fromHexChar c =
     (let n = (of_char c :: nat)
      in if 48 \<le> n \<and> n \<le> 57 then Some (n - 48)
         else if 97 \<le> n \<and> n \<le> 102 then Some (n - 87)
         else if 65 \<le> n \<and> n \<le> 70 then Some (n - 55)
         else None)"

datatype hex_error = InvalidByteError char | ErrLength

text \<open>
  \<^verbatim>\<open>hex.Decode(dst, src)\<close>: the bytes decoded before the first invalid character
  are written to \<^verbatim>\<open>dst\<close> even when it fails; the result is those bytes and the
  error, if any.
\<close>

fun hex_Decode :: "bytes \<Rightarrow> bytes \<times> hex_error option" where
  "hex_Decode [] = ([], None)"
| "hex_Decode [p] =
     (case fromHexChar p of
        None \<Rightarrow> ([], Some (InvalidByteError p))
      | Some a \<Rightarrow> ([], Some ErrLength))"
| "hex_Decode (p # q # rest) =
     (case fromHexChar p of
        None \<Rightarrow> ([], Some (InvalidByteError p))
      | Some a \<Rightarrow>
          (case fromHexChar q of
             None \<Rightarrow> ([], Some (InvalidByteError q))
           | Some b \<Rightarrow>
               (case hex_Decode rest of
                  (ds, e) \<Rightarrow> (char_of (a * 16 + b) # ds, e))))"

section \<open>Times\<close>

text \<open>
  A \<^verbatim>\<open>time.Time\<close> as the code observes it: the seconds \<^verbatim>\<open>Unix()\<close> returns (an
  \<^verbatim>\<open>int64\<close>), the nanoseconds within the second, and the name and the offset in
  seconds east of UTC of the zone in effect (\<^verbatim>\<open>Zone()\<close>).
\<close>

record gotime =
  unix_sec :: "64 word"
  nsec :: nat
  zone_name :: string
  zone_offset :: int

definition Unix :: "gotime \<Rightarrow> int" where
  "Unix t = sint (unix_sec t)"

text \<open>\<^verbatim>\<open>time.Time{}\<close>: January 1, year 1, 00:00:00 UTC.\<close>

definition zero_time :: gotime where
  "zero_time = \<lparr>unix_sec = word_of_int (- 62135596800), nsec = 0,
                 zone_name = ''UTC'', zone_offset = 0\<rparr>"

text \<open>\<^verbatim>\<open>time.Unix(ts, 0).In(time.FixedZone(name, offset))\<close>.\<close>

definition Unix_In_FixedZone :: "int \<Rightarrow> string \<Rightarrow> int \<Rightarrow> gotime" where
  "Unix_In_FixedZone ts name offset =
     \<lparr>unix_sec = word_of_int ts, nsec = 0, zone_name = name, zone_offset = offset\<rparr>"

text \<open>The formatter's \<^verbatim>\<open>appendInt(b, x, 2)\<close>: decimal, zero-padded to two digits.\<close>

definition appendInt2 :: "nat \<Rightarrow> string" where
  "appendInt2 x = (if x < 10 then CHR ''0'' # decimal x else decimal x)"

text \<open>
  \<^verbatim>\<open>t.Format("-0700")\<close>: the offset is cut to whole minutes by Go's truncating
  division, the sign is that of the minutes, then hours and minutes follow.
\<close>

definition Format_0700 :: "gotime \<Rightarrow> string" where
  "Format_0700 t =
     (let offset = zone_offset t;
          zone = (if offset < 0 then - ((- offset) div 60) else offset div 60);
          sgn = (if zone < 0 then CHR ''-'' else CHR ''+'');
          z = nat (abs zone)
      in sgn # appendInt2 (z div 60) @ appendInt2 (z mod 60))"

section \<open>Commits (\<^verbatim>\<open>object/commit.go\<close>)\<close>

text \<open>
  The errors of the commit codec, one constructor for each message the code builds;
  a constructor with an error argument is a \<^verbatim>\<open>%w\<close> wrapping.
\<close>

datatype commit_error =
    IoErrUnexpectedEOF
  | HexError hex_error
  | InvalidFormat
  | ParseTimestamp num_error
  | TZWrongLength bytes
  | TZBadSign bytes
  | TZBadDigits bytes
  | ParseSignature commit_error
  | TreeMissing
  | TreeHex commit_error
  | TreeTrailingData
  | ParentHex nat commit_error
  | ParentTrailingData nat
  | AuthorMissingLine
  | AuthorUser commit_error
  | CommitterMissingLine
  | CommitterUser commit_error
  | GPGSignatureError commit_error
  | MessageNoBlankLine
  | AuthorContainsNewline string
  | CommitterContainsNewline string
  | WriteGPGUnterminatedLine
  | MarshalError commit_error

text \<open>
  A \<^verbatim>\<open>githash.SHA1\<close> is an array of 20 bytes: a byte list, of length 20 in every
  value of the type.
\<close>

type_synonym hash = bytes

definition zero_hash :: hash where
  "zero_hash = replicate 20 NUL"

record commit =
  Tree :: hash
  Parents :: "hash list"
  Author :: string
  AuthorTime :: gotime
  Committer :: string
  CommitTime :: gotime
  GPGSignature :: bytes
  Message :: string

text \<open>\<^verbatim>\<open>Commit{}\<close>, the zero value.\<close>

definition zero_commit :: commit where
  "zero_commit = \<lparr>Tree = zero_hash, Parents = [], Author = [], AuthorTime = zero_time,
                   Committer = [], CommitTime = zero_time, GPGSignature = [], Message = []\<rparr>"

definition consumeString :: "bytes \<Rightarrow> string \<Rightarrow> bytes \<times> bool" where
  "consumeString src s =
     (if length src < length s then (src, False)
      else if list_ex (\<lambda>i. src ! i \<noteq> s ! i) [0..<length s] then (src, False)
      else (drop (length s) src, True))"

text \<open>
  \<^verbatim>\<open>consumeHex(dst, src)\<close> returns the new contents of \<^verbatim>\<open>dst\<close> as well: the
  decoder writes into it before it finds an invalid character.
\<close>

definition consumeHex :: "bytes \<Rightarrow> bytes \<Rightarrow> bytes \<times> bytes \<times> commit_error option" where
  "consumeHex dst src =
     (let n = 2 * length dst
      in if length src < n then (dst, src, Some IoErrUnexpectedEOF)
         else (case hex_Decode (take n src) of
                 (ds, Some e) \<Rightarrow> (ds @ drop (length ds) dst, src, Some (HexError e))
               | (ds, None) \<Rightarrow> (ds @ drop (length ds) dst, drop n src, None)))"

text \<open>\<^verbatim>\<open>parseTZOffset\<close> returns \<^verbatim>\<open>time.FixedZone(string(src), offset)\<close>: a name and an offset.\<close>

definition parseTZOffset :: "bytes \<Rightarrow> commit_error + (string \<times> int)" where
  "parseTZOffset src =
     (if length src \<noteq> 5 then Inl (TZWrongLength src)
      else if src ! 0 \<noteq> CHR ''-'' \<and> src ! 0 \<noteq> CHR ''+'' then Inl (TZBadSign src)
      else if list_ex (\<lambda>b. \<not> is_digit b) (drop 1 src) then Inl (TZBadDigits src)
      else (let sgn = (if src ! 0 = CHR ''-'' then - 1 else 1 :: int);
                hours = int (digit_val (src ! 1)) * 10 + int (digit_val (src ! 2));
                minutes = int (digit_val (src ! 3)) * 10 + int (digit_val (src ! 4));
                offset = (hours * 60 * 60 + minutes * 60) * sgn
            in Inr (src, offset)))"

definition consumeUser :: "bytes \<Rightarrow> string \<times> gotime \<times> bytes \<times> commit_error option" where
  "consumeUser src =
     (case IndexByte src LF of
        None \<Rightarrow> ([], zero_time, src, Some IoErrUnexpectedEOF)
      | Some eol \<Rightarrow>
          (let line = take eol src;
               tail = drop (eol + 1) src
           in case LastIndexByte line SP of
                None \<Rightarrow> ([], zero_time, src, Some InvalidFormat)
              | Some timestampEnd \<Rightarrow>
                  (let tzOffsetStart = timestampEnd + 1
                   in case LastIndexByte (take timestampEnd line) SP of
                        None \<Rightarrow> ([], zero_time, src, Some InvalidFormat)
                      | Some userEnd \<Rightarrow>
                          (let timestampStart = userEnd + 1
                           in case ParseInt (drop timestampStart (take timestampEnd line)) of
                                Inl e \<Rightarrow> ([], zero_time, src, Some (ParseTimestamp e))
                              | Inr timestamp \<Rightarrow>
                                  (case parseTZOffset (drop tzOffsetStart line) of
                                     Inl e \<Rightarrow> ([], zero_time, src, Some e)
                                   | Inr (name, offset) \<Rightarrow>
                                       (take userEnd line,
                                        Unix_In_FixedZone timestamp name offset,
                                        tail, None))))))"

lemma IndexByte_lt: "IndexByte xs c = Some i \<Longrightarrow> i < length xs"
  by (induction xs arbitrary: i) (auto split: if_splits)

lemma consumeString_True_length:
  "consumeString src s = (tl', True) \<Longrightarrow> length tl' + length s = length src"
  by (auto simp: consumeString_def split: if_splits)

lemma consumeHex_ok_length:
  "consumeHex dst src = (d, tl', None) \<Longrightarrow> length tl' + 2 * length dst = length src"
  by (auto simp: consumeHex_def Let_def split: if_splits prod.splits option.splits)

text \<open>The loop of \<^verbatim>\<open>consumeSignature\<close>: continuation lines start with a space.\<close>

function consumeSignature_loop :: "bytes \<Rightarrow> bytes \<Rightarrow> bytes \<times> bytes \<times> commit_error option" where
  "consumeSignature_loop sig tail =
     (if length tail > 0 \<and> tail ! 0 = SP then
        (case IndexByte tail LF of
           None \<Rightarrow> (sig, tail, Some (ParseSignature IoErrUnexpectedEOF))
         | Some i \<Rightarrow> consumeSignature_loop (sig @ drop 1 (take (i + 1) tail)) (drop (i + 1) tail))
      else (sig, tail, None))"
  by pat_completeness auto
termination
  by (relation "measure (\<lambda>(sig, tail). length tail)") auto

declare consumeSignature_loop.simps [simp del]

definition consumeSignature :: "bytes \<Rightarrow> bytes \<times> bytes \<times> commit_error option" where
  "consumeSignature src =
     (case IndexByte src LF of
        None \<Rightarrow> ([], src, Some (ParseSignature IoErrUnexpectedEOF))
      | Some i \<Rightarrow> consumeSignature_loop (take (i + 1) src) (drop (i + 1) src))"

text \<open>
  The loop of \<^verbatim>\<open>writeGPGSignature\<close>. The writer is the \<^verbatim>\<open>bytes.Buffer\<close> of
  \<^verbatim>\<open>MarshalText\<close>, whose \<^verbatim>\<open>Write\<close> appends and never fails; the buffer is
  passed and returned.
\<close>

function writeGPGSignature_loop :: "bytes \<Rightarrow> bytes \<Rightarrow> bytes \<times> commit_error option" where
  "writeGPGSignature_loop w sig =
     (if length sig > 0 then
        (case IndexByte sig LF of
           None \<Rightarrow> (w, Some WriteGPGUnterminatedLine)
         | Some lineEnd \<Rightarrow>
             writeGPGSignature_loop (w @ [SP] @ take (lineEnd + 1) sig) (drop (lineEnd + 1) sig))
      else (w, None))"
  by pat_completeness auto
termination
  by (relation "measure (\<lambda>(w, sig). length sig)") auto

declare writeGPGSignature_loop.simps [simp del]

definition gpgSignaturePrefix :: bytes where
  "gpgSignaturePrefix = ''gpgsig''"

definition writeGPGSignature :: "bytes \<Rightarrow> bytes \<Rightarrow> bytes \<times> commit_error option" where
  "writeGPGSignature w sig =
     (if length sig = 0 then (w, None)
      else writeGPGSignature_loop (w @ gpgSignaturePrefix) sig)"

text \<open>
  The parent loop of \<^verbatim>\<open>UnmarshalText\<close>, on the receiver \<^verbatim>\<open>c\<close>: it returns the
  receiver as it stands when the loop ends or fails.
\<close>

function parseParents :: "commit \<Rightarrow> bytes \<Rightarrow> nat \<Rightarrow> commit \<times> bytes \<times> commit_error option" where
  "parseParents c data i =
     (case consumeString data ''parent '' of
        (data1, False) \<Rightarrow> (c, data1, None)
      | (data1, True) \<Rightarrow>
          (case consumeHex zero_hash data1 of
             (p, data2, Some e) \<Rightarrow> (c, data2, Some (ParentHex i e))
           | (p, data2, None) \<Rightarrow>
               (let c' = c\<lparr>Parents := Parents c @ [p]\<rparr>
                in case consumeString data2 [LF] of
                     (data3, False) \<Rightarrow> (c', data3, Some (ParentTrailingData i))
                   | (data3, True) \<Rightarrow> parseParents c' data3 (i + 1))))"
  by pat_completeness auto
termination
  apply (relation "measure (\<lambda>(c, data, i). length data)")
   apply simp
  apply (auto dest!: consumeString_True_length [OF sym] consumeHex_ok_length [OF sym]
              consumeString_True_length consumeHex_ok_length)
  done

declare parseParents.simps [simp del]

text \<open>
  \<^verbatim>\<open>UnmarshalText\<close> assigns to its receiver field by field. The model takes the
  receiver as it is before the call and returns it as it is after the call, with the
  error (\<^term>\<open>None\<close> for \<^verbatim>\<open>nil\<close>).
\<close>

definition UnmarshalText :: "commit \<Rightarrow> bytes \<Rightarrow> commit \<times> commit_error option" where
  "UnmarshalText c0 data0 =
     (case consumeString data0 ''tree '' of
        (data, False) \<Rightarrow> (c0, Some TreeMissing)
      | (data, True) \<Rightarrow>
     (let c = zero_commit
      in case consumeHex (Tree c) data of
        (tree, data, Some e) \<Rightarrow> (c\<lparr>Tree := tree\<rparr>, Some (TreeHex e))
      | (tree, data, None) \<Rightarrow>
     (let c = c\<lparr>Tree := tree\<rparr>
      in case consumeString data [LF] of
        (data, False) \<Rightarrow> (c, Some TreeTrailingData)
      | (data, True) \<Rightarrow>
     (case parseParents c data 0 of
        (c, data, Some e) \<Rightarrow> (c, Some e)
      | (c, data, None) \<Rightarrow>
     (case consumeString data ''author '' of
        (data, False) \<Rightarrow> (c, Some AuthorMissingLine)
      | (data, True) \<Rightarrow>
     (case consumeUser data of
        (u, t, data, Some e) \<Rightarrow> (c\<lparr>Author := u, AuthorTime := t\<rparr>, Some (AuthorUser e))
      | (u, t, data, None) \<Rightarrow>
     (let c = c\<lparr>Author := u, AuthorTime := t\<rparr>
      in case consumeString data ''committer '' of
        (data, False) \<Rightarrow> (c, Some CommitterMissingLine)
      | (data, True) \<Rightarrow>
     (case consumeUser data of
        (u, t, data, Some e) \<Rightarrow> (c\<lparr>Committer := u, CommitTime := t\<rparr>, Some (CommitterUser e))
      | (u, t, data, None) \<Rightarrow>
     (let c = c\<lparr>Committer := u, CommitTime := t\<rparr>
      in case (case consumeString data ''gpgsig '' of
                 (data, False) \<Rightarrow> (c, data, None)
               | (data, True) \<Rightarrow>
                   (case consumeSignature data of
                      (sig, data, err) \<Rightarrow> (c\<lparr>GPGSignature := sig\<rparr>, data, err))) of
        (c, data, Some e) \<Rightarrow> (c, Some (GPGSignatureError e))
      | (c, data, None) \<Rightarrow>
     (case consumeString data [LF] of
        (data, False) \<Rightarrow> (c, Some MessageNoBlankLine)
      | (data, True) \<Rightarrow> (c\<lparr>Message := data\<rparr>, None)))))))))))"

text \<open>\<^verbatim>\<open>ParseCommit\<close> calls \<^verbatim>\<open>UnmarshalText\<close> on a new commit and returns both results.\<close>

definition ParseCommit :: "bytes \<Rightarrow> commit \<times> commit_error option" where
  "ParseCommit data = UnmarshalText zero_commit data"

text \<open>
  \<^verbatim>\<open>MarshalText\<close> returns either the error (with no bytes) or the bytes: \<open>Inl\<close> is
  the error.
\<close>

definition MarshalText :: "commit \<Rightarrow> commit_error + bytes" where
  "MarshalText c =
     (if Contains_LF (Author c) then Inl (AuthorContainsNewline (Author c))
      else if Contains_LF (Committer c) then Inl (CommitterContainsNewline (Committer c))
      else
        (let buf = [];
             buf = buf @ ''tree '' @ hex_encode (Tree c) @ [LF];
             buf = foldl (\<lambda>buf par. buf @ ''parent '' @ hex_encode par @ [LF]) buf (Parents c);
             buf = buf @ ''author '' @ Author c @ [SP] @ FormatInt (Unix (AuthorTime c))
                       @ [SP] @ Format_0700 (AuthorTime c) @ [LF];
             buf = buf @ ''committer '' @ Committer c @ [SP] @ FormatInt (Unix (CommitTime c))
                       @ [SP] @ Format_0700 (CommitTime c) @ [LF]
         in case writeGPGSignature buf (GPGSignature c) of
              (buf, Some err) \<Rightarrow> Inl (MarshalError err)
            | (buf, None) \<Rightarrow> Inr (buf @ [LF] @ Message c)))"

text \<open>
  Modelled from the spec: \<^verbatim>\<open>object.AppendPrefix\<close>, whose code is in another file of
  the package. The spec gives the object header as the type name, a space, the length
  in ASCII decimal and a NUL byte.
\<close>

definition AppendPrefix :: "bytes \<Rightarrow> string \<Rightarrow> nat \<Rightarrow> bytes" where
  "AppendPrefix dst typ n = dst @ typ @ [SP] @ decimal n @ [NUL]"

text \<open>
  \<^verbatim>\<open>SHA1\<close> either panics with the error of \<^verbatim>\<open>MarshalText\<close> or returns a hash. The
  hash function of \<^verbatim>\<open>crypto/sha1\<close> is the parameter \<open>sha1_sum\<close>: writing the header
  and then the body to the hasher hashes their concatenation.
\<close>

datatype 'a outcome = Panics commit_error | Returns 'a

definition SHA1 :: "(bytes \<Rightarrow> hash) \<Rightarrow> commit \<Rightarrow> hash outcome" where
  "SHA1 sha1_sum c =
     (case MarshalText c of
        Inl err \<Rightarrow> Panics err
      | Inr s \<Rightarrow> Returns (sha1_sum (AppendPrefix [] ''commit'' (length s) @ s)))"

section \<open>The version 1 fetch stream (\<^verbatim>\<open>packfile/client/fetch_v1.go\<close>)\<close>

subsection \<open>What the file uses from the rest of the repository\<close>

text \<open>
  The errors of the fetch stream, one constructor for each message; a constructor with
  an error argument is a \<^verbatim>\<open>%w\<close> wrapping. \<open>StreamError\<close> and \<open>TransportError\<close>
  stand for the errors of the byte stream and of the transport, which the code passes on.
\<close>

datatype fetch_error =
    IoEOF
  | StreamError string
  | UnexpectedPacket
  | TransportError string
  | BadSHA1 string
  | BadCapability bytes
  | ReadRefsFirstRef fetch_error
  | ReadRefs "fetch_error option"
  | ExpectedFlushAfterNoRefs
  | FirstRefMissingNul
  | FirstRefMissingSpace
  | FirstRef fetch_error
  | FirstRefNonZeroID
  | FirstRefInvalidName string
  | RefMissingSpace
  | RefInvalidName string
  | RefBadID string fetch_error
  | NoSideBand
  | ParseResponse fetch_error
  | AckTooShort
  | AckBadID fetch_error
  | AckUnknownStatus bytes
  | AckUnrecognizedDirective bytes

text \<open>
  Modelled from the spec: the pkt-line reader of \<^verbatim>\<open>internal/pktline\<close>, whose code is
  not among the sources. The spec gives the frames (a flush, delimiter or response-end
  marker, or a data frame), a reader that advances frame by frame and fails on a
  malformed frame, and a text helper that trims one trailing line feed. The model starts
  from the frames the byte stream decodes to and from how the stream ends (\<open>ends_with\<close>:
  \<open>None\<close> at a clean end, or the read error met after the last frame).
\<close>

datatype packet = DataPkt bytes | FlushPkt | DelimPkt | ResponseEndPkt

datatype packet_type = Data | Flush | Delim | ResponseEnd

record reader =
  current :: "packet option"
  pending :: "packet list"
  ends_with :: "fetch_error option"
  failed :: "fetch_error option"

definition NewReader :: "packet list \<times> fetch_error option \<Rightarrow> reader" where
  "NewReader resp = \<lparr>current = None, pending = fst resp, ends_with = snd resp, failed = None\<rparr>"

definition Next :: "reader \<Rightarrow> bool \<times> reader" where
  "Next r =
     (if failed r \<noteq> None then (False, r)
      else (case pending r of
              [] \<Rightarrow> (False, r\<lparr>current := None,
                                failed := Some (case ends_with r of None \<Rightarrow> IoEOF | Some e \<Rightarrow> e)\<rparr>)
            | p # ps \<Rightarrow> (True, r\<lparr>current := Some p, pending := ps\<rparr>)))"

definition Err :: "reader \<Rightarrow> fetch_error option" where
  "Err r = (if failed r = Some IoEOF then None else failed r)"

definition Type :: "reader \<Rightarrow> packet_type option" where
  "Type r =
     (case current r of
        None \<Rightarrow> None
      | Some (DataPkt bs) \<Rightarrow> Some Data
      | Some FlushPkt \<Rightarrow> Some Flush
      | Some DelimPkt \<Rightarrow> Some Delim
      | Some ResponseEndPkt \<Rightarrow> Some ResponseEnd)"

definition trimLF :: "bytes \<Rightarrow> bytes" where
  "trimLF line = (if line \<noteq> [] \<and> last line = LF then butlast line else line)"

definition Text :: "reader \<Rightarrow> fetch_error + bytes" where
  "Text r =
     (case failed r of
        Some e \<Rightarrow> Inl e
      | None \<Rightarrow>
          (case current r of
             Some (DataPkt bs) \<Rightarrow> Inr (trimLF bs)
           | _ \<Rightarrow> Inl UnexpectedPacket))"

text \<open>
  Modelled from the spec: the pkt-line writer of \<^verbatim>\<open>internal/pktline\<close>. A data frame
  is four hexadecimal digits giving the length of the payload plus four, then the
  payload; a payload of more than 65516 bytes is refused (\<open>None\<close>); a flush frame is
  four zeros.
\<close>

definition hex4 :: "nat \<Rightarrow> string" where
  "hex4 n = [hex_digit (n div 4096 mod 16), hex_digit (n div 256 mod 16),
             hex_digit (n div 16 mod 16), hex_digit (n mod 16)]"

definition AppendString :: "bytes \<Rightarrow> string \<Rightarrow> bytes option" where
  "AppendString dst line =
     (if length line > 65516 then None else Some (dst @ hex4 (length line + 4) @ line))"

definition AppendFlush :: "bytes \<Rightarrow> bytes" where
  "AppendFlush dst = dst @ ''0000''"

text \<open>
  Modelled from the spec: the capability set of \<^verbatim>\<open>capabilities.go\<close>, a mapping from a
  capability name to its value. \<open>intersect\<close> keeps the keys that are in both sets with
  the values of the left one, \<open>supports\<close> is membership, and the names are those of the
  spec's table.
\<close>

type_synonym capabilityList = "string \<rightharpoonup> string"

definition intersect :: "capabilityList \<Rightarrow> capabilityList \<Rightarrow> capabilityList" where
  "intersect caps other = (\<lambda>k. if other k = None then None else caps k)"

definition supports :: "capabilityList \<Rightarrow> string \<Rightarrow> bool" where
  "supports caps k = (caps k \<noteq> None)"

definition multiAckCap :: string where "multiAckCap = ''multi_ack''"

definition ofsDeltaCap :: string where "ofsDeltaCap = ''ofs-delta''"

definition noProgressCap :: string where "noProgressCap = ''no-progress''"

definition sideBand64KCap :: string where "sideBand64KCap = ''side-band-64k''"

definition sideBandCap :: string where "sideBandCap = ''side-band''"


text \<open>
  Modelled from the spec: the directives of the acknowledgement section, \<^verbatim>\<open>ACK \<close> before
  a hex id and the line \<^verbatim>\<open>NAK\<close>.
\<close>

definition ackPrefix :: string where "ackPrefix = ''ACK ''"

definition nak :: string where "nak = ''NAK''"

definition v1ExtraParams :: string where "v1ExtraParams = ''version=1''"

text \<open>
  The functions of other files whose definitions the spec leaves open are parameters,
  gathered in one record: \<^verbatim>\<open>githash.ParseSHA1\<close> (also behind \<^verbatim>\<open>SHA1.UnmarshalText\<close>),
  \<^verbatim>\<open>Ref.IsValid\<close>, \<^verbatim>\<open>parseCapability\<close>, the \<^verbatim>\<open>symrefs\<close> and \<^verbatim>\<open>addSymref\<close>
  methods of the capability set, and its \<^verbatim>\<open>String\<close> method.
\<close>

record externals =
  ParseSHA1 :: "string \<Rightarrow> fetch_error + hash"
  IsValid :: "string \<Rightarrow> bool"
  parseCapability :: "bytes \<Rightarrow> fetch_error + (string \<times> string)"
  symrefs :: "capabilityList \<Rightarrow> (string \<rightharpoonup> string)"
  addSymref :: "capabilityList \<Rightarrow> string \<Rightarrow> capabilityList"
  capsString :: "capabilityList \<Rightarrow> string"




definition HasPrefix :: "bytes \<Rightarrow> bytes \<Rightarrow> bool" where
  "HasPrefix s pre = (length s \<ge> length pre \<and> take (length pre) s = pre)"

subsection \<open>Refs\<close>

record Ref =
  ObjectID :: hash
  Name :: string
  SymrefTarget :: string

text \<open>
  The stream: its capabilities, its transport (\<^verbatim>\<open>impl.uploadPack\<close>, from the extra
  parameters and the request body to an error or the frames of the response), the
  reader of the advertisement while refs remain to be read, and the refs read so far.
  Closing the advertisement is not modelled.
\<close>

record fetchV1 =
  caps :: capabilityList
  impl :: "string \<Rightarrow> bytes \<Rightarrow> fetch_error + (packet list \<times> fetch_error option)"
  refsReader :: "reader option"
  refs :: "Ref list"
  refsError :: "fetch_error option"


text \<open>A missing key of a Go map reads as the empty string.\<close>

definition lookup_ref :: "(string \<rightharpoonup> string) \<Rightarrow> string \<Rightarrow> string" where
  "lookup_ref m k = (case m k of None \<Rightarrow> [] | Some v \<Rightarrow> v)"




definition parseOtherRefV1 :: "externals \<Rightarrow> bytes \<Rightarrow> fetch_error + Ref" where
  "parseOtherRefV1 x line0 =
     (let line = trimLF line0
      in case IndexByte line SP of
           None \<Rightarrow> Inl RefMissingSpace
         | Some idEnd \<Rightarrow>
             (let refName = drop (idEnd + 1) line
              in if \<not> IsValid x refName then Inl (RefInvalidName refName)
                 else (case ParseSHA1 x (take idEnd line) of
                         Inl err \<Rightarrow> Inl (RefBadID refName err)
                       | Inr oid \<Rightarrow> Inr \<lparr>ObjectID = oid, Name = refName, SymrefTarget = []\<rparr>)))"

lemma Next_True_pending:
  "Next r = (True, r') \<Longrightarrow> length (pending r') < length (pending r)"
  by (auto simp: Next_def split: if_splits list.splits)

function readOtherRefsV1 ::
  "externals \<Rightarrow> Ref list \<Rightarrow> (string \<rightharpoonup> string) \<Rightarrow> reader
     \<Rightarrow> reader \<times> Ref list \<times> fetch_error option" where
  "readOtherRefsV1 x rs syms r =
     (case Next r of
        (ok, r') \<Rightarrow>
          (if ok \<and> Type r' \<noteq> Some Flush then
             (case Text r' of
                Inl err \<Rightarrow> (r', [], Some (ReadRefs (Some err)))
              | Inr line \<Rightarrow>
                  (case parseOtherRefV1 x line of
                     Inl err \<Rightarrow> (r', [], Some (ReadRefs (Some err)))
                   | Inr ref \<Rightarrow>
                       readOtherRefsV1 x
                         (rs @ [ref\<lparr>SymrefTarget := lookup_ref syms (Name ref)\<rparr>]) syms r'))
           else (case Err r' of
                   Some err \<Rightarrow> (r', rs, Some (ReadRefs (Some err)))
                 | None \<Rightarrow> (r', rs, None))))"
  by pat_completeness auto
termination
  by (relation "measure (\<lambda>(x, rs, syms, r). length (pending r))")
    (auto dest: Next_True_pending [OF sym])

declare readOtherRefsV1.simps [simp del]

text \<open>
  \<^verbatim>\<open>listRefs\<close> reads the remaining refs on its first call and then filters; it returns
  the stream as it is after the call, the refs and the error.
\<close>

definition listRefs ::
  "externals \<Rightarrow> fetchV1 \<Rightarrow> string list \<Rightarrow> fetchV1 \<times> Ref list \<times> fetch_error option" where
  "listRefs x f0 refPrefixes =
     (let f = (case refsReader f0 of
                 None \<Rightarrow> f0
               | Some r \<Rightarrow>
                   (case readOtherRefsV1 x (refs f0) (symrefs x (caps f0)) r of
                      (r', rs, err) \<Rightarrow> f0\<lparr>refsReader := None, refs := rs, refsError := err\<rparr>))
      in if length refPrefixes = 0 then (f, refs f, refsError f)
         else (f,
               foldl (\<lambda>out r.
                        foldl (\<lambda>out prefix. if HasPrefix (Name r) prefix then out @ [r] else out)
                              out refPrefixes)
                     [] (refs f),
               refsError f))"

subsection \<open>Negotiation\<close>

text \<open>A progress sink is an opaque handle; \<open>None\<close> is \<^verbatim>\<open>nil\<close>.\<close>

type_synonym writer = nat

record FetchRequest =
  Want :: "hash list"
  Have :: "hash list"
  HaveMore :: bool
  Progress :: "writer option"

text \<open>
  The packfile reader of a response: it continues on the reader of the acknowledgement
  section (the response body it would close is not modelled).
\<close>

record packfileReader =
  errPrefix :: string
  packReader :: reader
  progress :: "writer option"

text \<open>\<^verbatim>\<open>Acks\<close> is a map to \<^verbatim>\<open>true\<close>: the set of its keys.\<close>

record FetchResponse =
  Acks :: "hash set"
  Packfile :: "packfileReader option"

text \<open>
  The capability selection at the head of \<^verbatim>\<open>negotiate\<close>, up to the \<^verbatim>\<open>switch\<close>
  that fails when the remote offers no side-band variant.
\<close>

definition selectCaps :: "fetchV1 \<Rightarrow> FetchRequest \<Rightarrow> fetch_error + capabilityList" where
  "selectCaps f req =
     (let useCaps = [multiAckCap \<mapsto> [], ofsDeltaCap \<mapsto> []];
          useCaps = (if Progress req = None then useCaps(noProgressCap \<mapsto> []) else useCaps);
          useCaps = intersect useCaps (caps f)
      in if supports (caps f) sideBand64KCap then Inr (useCaps(sideBand64KCap \<mapsto> []))
         else if supports (caps f) sideBandCap then Inr (useCaps(sideBandCap \<mapsto> []))
         else Inl NoSideBand)"

text \<open>
  The two loops that append one line per object id (\<^verbatim>\<open>want\<close> or \<^verbatim>\<open>have\<close>, then the
  id in hexadecimal and a line feed); \<open>None\<close> when the writer refuses a line.
\<close>

fun appendLines :: "string \<Rightarrow> bytes \<Rightarrow> hash list \<Rightarrow> bytes option" where
  "appendLines kw buf [] = Some buf"
| "appendLines kw buf (h # hs) =
     (case AppendString buf (kw @ hex_encode h @ [LF]) of
        None \<Rightarrow> None
      | Some buf' \<Rightarrow> appendLines kw buf' hs)"

text \<open>
  The request buffer. Indexing an empty \<^verbatim>\<open>Want\<close> panics, and so does a line the
  writer refuses: \<open>Inl\<close> is the panic.
\<close>

definition commandBuf :: "externals \<Rightarrow> FetchRequest \<Rightarrow> capabilityList \<Rightarrow> string + bytes" where
  "commandBuf x req useCaps =
     (case Want req of
        [] \<Rightarrow> Inl ''index out of range''
      | want0 # wants \<Rightarrow>
     (case AppendString []
             (''want '' @ hex_encode want0 @ [SP] @ capsString x useCaps @ [LF]) of
        None \<Rightarrow> Inl ''pktline: line too long''
      | Some buf \<Rightarrow>
     (case appendLines ''want '' buf wants of
        None \<Rightarrow> Inl ''pktline: line too long''
      | Some buf \<Rightarrow>
     (case appendLines ''have '' (AppendFlush buf) (Have req) of
        None \<Rightarrow> Inl ''pktline: line too long''
      | Some buf \<Rightarrow>
          (if \<not> HaveMore req then
             (case AppendString buf ''done'' of
                None \<Rightarrow> Inl ''pktline: line too long''
              | Some buf \<Rightarrow> Inr buf)
           else Inr (AppendFlush buf))))))"

text \<open>
  The acknowledgement loop: the acks recorded, whether a common base was found, and the
  reader where the loop left it; or the error the loop returns.
\<close>

function ackLoop ::
  "externals \<Rightarrow> reader \<Rightarrow> hash set \<Rightarrow> fetch_error + (hash set \<times> bool \<times> reader)" where
  "ackLoop x respReader acks =
     (case Next respReader of
        (False, r) \<Rightarrow> Inr (acks, False, r)
      | (True, r) \<Rightarrow>
          (case Text r of
             Inl err \<Rightarrow> Inl (ParseResponse err)
           | Inr line0 \<Rightarrow>
               (if HasPrefix line0 ackPrefix then
                  (let line = drop (length ackPrefix) line0;
                       idEnd = 2 * 20
                   in if idEnd > length line then Inl AckTooShort
                      else (case ParseSHA1 x (take idEnd line) of
                              Inl err \<Rightarrow> Inl (AckBadID err)
                            | Inr oid \<Rightarrow>
                                (let acks' = insert oid acks;
                                     status = drop idEnd line
                                 in if length status = 0 then Inr (acks', True, r)
                                    else if status = ''continue'' then ackLoop x r acks'
                                    else Inl (AckUnknownStatus status))))
                else if line0 = nak then Inr (acks, False, r)
                else Inl (AckUnrecognizedDirective line0))))"
  by pat_completeness auto
termination
  by (relation "measure (\<lambda>(x, r, acks). length (pending r))")
    (auto dest: Next_True_pending [OF sym])

declare ackLoop.simps [simp del]

datatype negotiate_result = Panic string | Failed fetch_error | Done FetchResponse

text \<open>
  \<^verbatim>\<open>negotiate\<close> returns, with its result, the requests it posted to the transport:
  the extra parameters and the body of each \<^verbatim>\<open>uploadPack\<close> call.
\<close>

definition negotiate ::
  "externals \<Rightarrow> fetchV1 \<Rightarrow> string \<Rightarrow> FetchRequest \<Rightarrow> (string \<times> bytes) list \<times> negotiate_result" where
  "negotiate x f prefix req =
     (case selectCaps f req of
        Inl err \<Rightarrow> ([], Failed err)
      | Inr useCaps \<Rightarrow>
     (case commandBuf x req useCaps of
        Inl msg \<Rightarrow> ([], Panic msg)
      | Inr buf \<Rightarrow>
     (let posted = [(v1ExtraParams, buf)]
      in case impl f v1ExtraParams buf of
        Inl err \<Rightarrow> (posted, Failed err)
      | Inr resp \<Rightarrow>
     (case ackLoop x (NewReader resp) {} of
        Inl err \<Rightarrow> (posted, Failed err)
      | Inr (acks, foundCommonBase, respReader) \<Rightarrow>
     (case Err respReader of
        Some err \<Rightarrow> (posted, Failed (ParseResponse err))
      | None \<Rightarrow>
          (posted,
           Done \<lparr>Acks = acks,
                 Packfile =
                   (if foundCommonBase \<or> \<not> HaveMore req
                    then Some \<lparr>errPrefix = prefix, packReader = respReader,
                                progress = Progress req\<rparr>
                    else None)\<rparr>))))))"

section \<open>Notions of the specification, and concrete values\<close>

text \<open>
  The definitions below are not translated from the code: they name what the
  properties speak about (a signature with an unterminated line, the bytes of each part
  of a serialized commit, the frames of a request, the lines of an acknowledgement
  section) and fix the concrete commits, streams and requests on which the theorems
  are instantiated.
\<close>

subsection \<open>Commits\<close>

text \<open>
  A signature buffer with an unterminated last line: it is not empty and its last byte is
  not a line feed. Every other buffer is a sequence of LF-terminated lines.
\<close>

definition unterminated :: "bytes \<Rightarrow> bool" where
  "unterminated sig = (sig \<noteq> [] \<and> last sig \<noteq> LF)"

text \<open>
  What the loop of \<^verbatim>\<open>writeGPGSignature\<close> writes for a buffer of terminated lines:
  each line after a space.
\<close>

function fold_lines :: "bytes \<Rightarrow> bytes" where
  "fold_lines sig =
     (if sig = [] then []
      else (case IndexByte sig LF of
              None \<Rightarrow> []
            | Some i \<Rightarrow> SP # take (Suc i) sig @ fold_lines (drop (Suc i) sig)))"
  by pat_completeness auto
termination
  by (relation "measure length") auto

declare fold_lines.simps [simp del]

text \<open>The bytes \<^verbatim>\<open>MarshalText\<close> writes, part by part.\<close>

definition emit_sig :: "bytes \<Rightarrow> bytes" where
  "emit_sig sig = (if sig = [] then [] else ''gpgsig'' @ fold_lines sig)"

definition parent_line :: "hash \<Rightarrow> bytes" where
  "parent_line p = ''parent '' @ hex_encode p @ [LF]"

definition user_line :: "string \<Rightarrow> gotime \<Rightarrow> bytes" where
  "user_line u t = u @ [SP] @ FormatInt (Unix t) @ [SP] @ Format_0700 t @ [LF]"

definition emit_header :: "commit \<Rightarrow> bytes" where
  "emit_header c =
     ''tree '' @ hex_encode (Tree c) @ [LF] @ concat (map parent_line (Parents c))
     @ ''author '' @ user_line (Author c) (AuthorTime c)
     @ ''committer '' @ user_line (Committer c) (CommitTime c)"

text \<open>The error kinds of the specification, as sets of the errors above.\<close>

fun is_InvalidUser :: "commit_error \<Rightarrow> bool" where
  "is_InvalidUser (AuthorContainsNewline u) = True"
| "is_InvalidUser (CommitterContainsNewline u) = True"
| "is_InvalidUser _ = False"

fun is_UnterminatedSignature :: "commit_error \<Rightarrow> bool" where
  "is_UnterminatedSignature (MarshalError WriteGPGUnterminatedLine) = True"
| "is_UnterminatedSignature _ = False"

text \<open>A concrete input: the tree line of a commit, cut before its line feed.\<close>

definition aa_hash :: hash where
  "aa_hash = [CHR 0xAA, CHR 0xAA, CHR 0xAA, CHR 0xAA, CHR 0xAA, CHR 0xAA, CHR 0xAA, CHR 0xAA, CHR 0xAA, CHR 0xAA, CHR 0xAA, CHR 0xAA, CHR 0xAA, CHR 0xAA, CHR 0xAA, CHR 0xAA, CHR 0xAA, CHR 0xAA, CHR 0xAA, CHR 0xAA]"

definition cut_commit :: bytes where
  "cut_commit = ''tree aaaaaaaaaaaaaaaaaaaaaaaaaaaaaaaaaaaaaaaa''"

text \<open>
  The times a commit object can hold: whole seconds, in a fixed zone whose offset is a
  whole number of minutes, under a hundred hours either way, and whose name is the
  offset as \<^verbatim>\<open>-0700\<close> prints it (the name \<^verbatim>\<open>parseTZOffset\<close> gives the zone).
\<close>

definition git_time :: "gotime \<Rightarrow> bool" where
  "git_time t \<longleftrightarrow>
     nsec t = 0 \<and> zone_offset t mod 60 = 0 \<and> \<bar>zone_offset t\<bar> < 360000 \<and>
     zone_name t = Format_0700 t"

text \<open>A concrete commit, with a parent and a signature of two lines.\<close>

definition bb_hash :: hash where
  "bb_hash = [CHR 0xBB, CHR 0xBB, CHR 0xBB, CHR 0xBB, CHR 0xBB, CHR 0xBB, CHR 0xBB, CHR 0xBB, CHR 0xBB, CHR 0xBB, CHR 0xBB, CHR 0xBB, CHR 0xBB, CHR 0xBB, CHR 0xBB, CHR 0xBB, CHR 0xBB, CHR 0xBB, CHR 0xBB, CHR 0xBB]"

definition pst_time :: gotime where
  "pst_time = \<lparr>unix_sec = 1578610200, nsec = 0, zone_name = ''-0800'', zone_offset = - 28800\<rparr>"

definition sample_commit :: commit where
  "sample_commit =
     \<lparr>Tree = aa_hash, Parents = [bb_hash], Author = ''Alice <a@e>'', AuthorTime = pst_time,
      Committer = ''Alice <a@e>'', CommitTime = pst_time,
      GPGSignature = ''ab'' @ [LF] @ ''cd'' @ [LF], Message = ''hi'' @ [LF]\<rparr>"

definition sample_bytes :: bytes where
  "sample_bytes =
     ''tree aaaaaaaaaaaaaaaaaaaaaaaaaaaaaaaaaaaaaaaa'' @ [LF] @
     ''parent bbbbbbbbbbbbbbbbbbbbbbbbbbbbbbbbbbbbbbbb'' @ [LF] @
     ''author Alice <a@e> 1578610200 -0800'' @ [LF] @
     ''committer Alice <a@e> 1578610200 -0800'' @ [LF] @
     ''gpgsig ab'' @ [LF] @ '' cd'' @ [LF] @
     [LF] @ ''hi'' @ [LF]"

text \<open>The same commit, written half a microsecond later.\<close>

definition nanos_commit :: commit where
  "nanos_commit = sample_commit\<lparr>AuthorTime := pst_time\<lparr>nsec := 500\<rparr>\<rparr>"

text \<open>
  How far \<^verbatim>\<open>UnmarshalText\<close> had come when it failed, by the error it returns: 1 in
  the tree line, 2 in the parent lines or at the author line, 3 at the committer line, 4
  in the signature or at the blank line before the message. The errors of the other
  functions count 0.
\<close>

fun reached :: "commit_error \<Rightarrow> nat" where
  "reached (TreeHex e) = 1"
| "reached TreeTrailingData = 1"
| "reached (ParentHex i e) = 2"
| "reached (ParentTrailingData i) = 2"
| "reached AuthorMissingLine = 2"
| "reached (AuthorUser e) = 2"
| "reached CommitterMissingLine = 3"
| "reached (CommitterUser e) = 3"
| "reached (GPGSignatureError e) = 4"
| "reached MessageNoBlankLine = 4"
| "reached _ = 0"

text \<open>
  What each step of the parser reads from an input, one step after the other, each on
  the bytes the step before it left: the tree id after the keyword \<^verbatim>\<open>tree \<close>
  (the bytes decoded, the rest of the input and the error, as \<^verbatim>\<open>consumeHex\<close>
  returns them), the parent lines after the line feed of the tree line (on a commit
  that holds the tree alone), the author after \<^verbatim>\<open>author \<close>, the committer after
  \<^verbatim>\<open>committer \<close>, and the signature after \<^verbatim>\<open>gpgsig \<close>, which is empty without
  that keyword.
\<close>

definition tree_read :: "bytes \<Rightarrow> hash \<times> bytes \<times> commit_error option" where
  "tree_read data = consumeHex zero_hash (fst (consumeString data ''tree ''))"

definition parents_read :: "bytes \<Rightarrow> commit \<times> bytes \<times> commit_error option" where
  "parents_read data =
     parseParents (zero_commit\<lparr>Tree := fst (tree_read data)\<rparr>)
       (fst (consumeString (fst (snd (tree_read data))) [LF])) 0"

definition author_read :: "bytes \<Rightarrow> string \<times> gotime \<times> bytes \<times> commit_error option" where
  "author_read data = consumeUser (fst (consumeString (fst (snd (parents_read data))) ''author ''))"

definition committer_read :: "bytes \<Rightarrow> string \<times> gotime \<times> bytes \<times> commit_error option" where
  "committer_read data =
     consumeUser (fst (consumeString (fst (snd (snd (author_read data)))) ''committer ''))"

definition signature_read :: "bytes \<Rightarrow> bytes" where
  "signature_read data =
     (case consumeString (fst (snd (snd (committer_read data)))) ''gpgsig '' of
        (d, False) \<Rightarrow> []
      | (d, True) \<Rightarrow> fst (consumeSignature d))"

text \<open>A concrete input: the commit above, cut after its author line.\<close>

definition cut_author :: bytes where
  "cut_author =
     ''tree aaaaaaaaaaaaaaaaaaaaaaaaaaaaaaaaaaaaaaaa'' @ [LF] @
     ''parent bbbbbbbbbbbbbbbbbbbbbbbbbbbbbbbbbbbbbbbb'' @ [LF] @
     ''author Alice <a@e> 1578610200 -0800'' @ [LF]"

subsection \<open>The fetch stream\<close>

text \<open>The frames of the request, as the spec names them.\<close>

definition data_frame :: "bytes \<Rightarrow> bytes" where
  "data_frame payload = hex4 (length payload + 4) @ payload"

definition flush_frame :: bytes where
  "flush_frame = ''0000''"

text \<open>
  The lines of the acknowledgement section: the \<^verbatim>\<open>NAK\<close> line, and an \<^verbatim>\<open>ACK\<close> line
  that carries the 40 characters of an id and no status. A terminal acknowledgement is
  seen when such a line stands in the response before any \<^verbatim>\<open>NAK\<close> line.
\<close>

fun is_nak :: "packet \<Rightarrow> bool" where
  "is_nak (DataPkt bs) = (trimLF bs = nak)"
| "is_nak _ = False"

fun is_statusless_ack :: "packet \<Rightarrow> bool" where
  "is_statusless_ack (DataPkt bs) =
     (HasPrefix (trimLF bs) ackPrefix \<and> length (trimLF bs) = length ackPrefix + 40)"
| "is_statusless_ack _ = False"

definition terminal_ack_seen :: "packet list \<Rightarrow> bool" where
  "terminal_ack_seen frames = list_ex is_statusless_ack (takeWhile (\<lambda>p. \<not> is_nak p) frames)"

text \<open>
  A concrete stream and request: an instance of the parameters (an id parser that
  takes 40 hexadecimal digits, a rendering of the capability names separated by
  spaces), a transport that answers every request with the given frames, a server that
  offers \<^verbatim>\<open>multi_ack\<close> and both side-band variants.
\<close>

fun join_sp :: "string list \<Rightarrow> string" where
  "join_sp [] = []"
| "join_sp [k] = k"
| "join_sp (k # ks) = k @ SP # join_sp ks"

definition sample_externals :: externals where
  "sample_externals =
     \<lparr>ParseSHA1 = (\<lambda>s. if length s = 40 \<and> snd (hex_Decode s) = None
                          then Inr (fst (hex_Decode s)) else Inl (BadSHA1 s)),
      IsValid = (\<lambda>n. n \<noteq> []),
      parseCapability = (\<lambda>c. Inr (c, [])),
      symrefs = (\<lambda>cl. Map.empty),
      addSymref = (\<lambda>cl v. cl),
      capsString = (\<lambda>cl. join_sp (filter (\<lambda>k. cl k \<noteq> None)
                      [multiAckCap, noProgressCap, ofsDeltaCap, sideBandCap, sideBand64KCap]))\<rparr>"

definition sample_stream :: "capabilityList \<Rightarrow> packet list \<Rightarrow> fetchV1" where
  "sample_stream cl frames =
     \<lparr>caps = cl, impl = (\<lambda>params body. Inr (frames, None)), refsReader = None, refs = [],
      refsError = None\<rparr>"

definition sample_caps :: capabilityList where
  "sample_caps = [multiAckCap \<mapsto> [], sideBandCap \<mapsto> [], sideBand64KCap \<mapsto> []]"

definition sample_request :: FetchRequest where
  "sample_request = \<lparr>Want = [bb_hash], Have = [aa_hash], HaveMore = True, Progress = None\<rparr>"

definition sample_useCaps :: capabilityList where
  "sample_useCaps =
     (intersect [multiAckCap \<mapsto> [], ofsDeltaCap \<mapsto> [], noProgressCap \<mapsto> []] sample_caps)
       (sideBand64KCap \<mapsto> [])"

definition sample_body :: bytes where
  "sample_body =
     data_frame (''want '' @ hex_encode bb_hash @ [SP] @ ''multi_ack side-band-64k'' @ [LF])
     @ flush_frame
     @ data_frame (''have '' @ hex_encode aa_hash @ [LF])
     @ flush_frame"

text \<open>
  Scenario S3 of the specification: the response \<^verbatim>\<open>ACK\<close>, id, \<^verbatim>\<open>continue\<close>, then
  \<^verbatim>\<open>NAK\<close>, to a request with \<^verbatim>\<open>HaveMore\<close> set.
\<close>

definition s3_response :: "packet list" where
  "s3_response =
     [DataPkt (''ACK aaaaaaaaaaaaaaaaaaaaaaaaaaaaaaaaaaaaaaaa continue'' @ [LF]),
      DataPkt (''NAK'' @ [LF])]"

text \<open>A response that ends the negotiation: one statusless \<^verbatim>\<open>ACK\<close> line.\<close>

definition ack_response :: "packet list" where
  "ack_response = [DataPkt (''ACK aaaaaaaaaaaaaaaaaaaaaaaaaaaaaaaaaaaaaaaa'' @ [LF])]"

definition ack_result :: FetchResponse where
  "ack_result =
     \<lparr>Acks = {aa_hash},
      Packfile = Some \<lparr>errPrefix = [],
                       packReader =
                         \<lparr>current =
                            Some (DataPkt (''ACK aaaaaaaaaaaaaaaaaaaaaaaaaaaaaaaaaaaaaaaa'' @ [LF])),
                          pending = [], ends_with = None, failed = None\<rparr>,
                       progress = None\<rparr>\<rparr>"





definition no_transport :: "string \<Rightarrow> bytes \<Rightarrow> fetch_error + (packet list \<times> fetch_error option)" where
  "no_transport params body = Inr ([], None)"





text \<open>A stream whose refs have all been read, and one ref.\<close>

definition main_ref :: Ref where
  "main_ref = \<lparr>ObjectID = aa_hash, Name = ''refs/heads/main'', SymrefTarget = []\<rparr>"

definition drained_stream :: "Ref list \<Rightarrow> fetchV1" where
  "drained_stream rs =
     \<lparr>caps = Map.empty, impl = no_transport, refsReader = None, refs = rs, refsError = None\<rparr>"

section \<open>Properties of the commit codec\<close>

subsection \<open>Emission: when it fails and what it writes\<close>

lemma IndexByte_None_iff: "IndexByte xs c = None \<longleftrightarrow> c \<notin> set xs"
  by (induction xs) auto

lemma IndexByte_Some_nth: "IndexByte xs c = Some i \<Longrightarrow> xs ! i = c"
  by (induction xs arbitrary: i) (auto split: if_splits)

lemma Contains_LF_iff: "Contains_LF s \<longleftrightarrow> LF \<in> set s"
  by (simp add: Contains_LF_def IndexByte_None_iff)

lemma unterminated_drop:
  assumes "IndexByte sig LF = Some i"
  shows "unterminated (drop (Suc i) sig) = unterminated sig"
proof -
  have i: "i < length sig" and n: "sig ! i = LF"
    using assms by (auto dest: IndexByte_lt IndexByte_Some_nth)
  show ?thesis
  proof (cases "Suc i = length sig")
    case True
    then have "last sig = LF" using n i
      by (metis diff_Suc_1 last_conv_nth length_0_conv nat.distinct(1))
    with True i show ?thesis by (auto simp: unterminated_def)
  next
    case False
    with i have "Suc i < length sig" by simp
    then show ?thesis by (auto simp: unterminated_def last_drop)
  qed
qed

lemma writeGPGSignature_loop_err:
  "snd (writeGPGSignature_loop w sig) =
     (if unterminated sig then Some WriteGPGUnterminatedLine else None)"
proof (induction w sig rule: writeGPGSignature_loop.induct)
  case (1 w sig)
  show ?case
  proof (cases "IndexByte sig LF")
    case None
    then have "LF \<notin> set sig" by (simp add: IndexByte_None_iff)
    then have "sig \<noteq> [] \<Longrightarrow> last sig \<noteq> LF" using last_in_set by metis
    with None show ?thesis
      by (subst writeGPGSignature_loop.simps) (auto simp: unterminated_def)
  next
    case (Some i)
    then have ne: "sig \<noteq> []" by auto
    from Some ne 1 [of i] unterminated_drop [OF Some] show ?thesis
      by (subst writeGPGSignature_loop.simps) simp
  qed
qed

lemma writeGPGSignature_err:
  "snd (writeGPGSignature w sig) =
     (if unterminated sig then Some WriteGPGUnterminatedLine else None)"
  by (simp add: writeGPGSignature_def writeGPGSignature_loop_err unterminated_def)

lemma writeGPGSignature_loop_eq:
  "\<not> unterminated sig \<Longrightarrow> writeGPGSignature_loop w sig = (w @ fold_lines sig, None)"
proof (induction w sig rule: writeGPGSignature_loop.induct)
  case (1 w sig)
  show ?case
  proof (cases "sig = []")
    case True
    then show ?thesis
      by (subst writeGPGSignature_loop.simps, subst fold_lines.simps) simp
  next
    case False
    with "1.prems" have "LF \<in> set sig"
      by (metis last_in_set unterminated_def)
    then obtain i where i: "IndexByte sig LF = Some i"
      by (cases "IndexByte sig LF") (auto simp: IndexByte_None_iff)
    from "1.IH" [OF _ i] False "1.prems" unterminated_drop [OF i]
    have "writeGPGSignature_loop (w @ [SP] @ take (i + 1) sig) (drop (i + 1) sig) =
            ((w @ [SP] @ take (i + 1) sig) @ fold_lines (drop (i + 1) sig), None)"
      by simp
    with i False show ?thesis
      by (subst writeGPGSignature_loop.simps, subst fold_lines.simps) simp
  qed
qed

lemma writeGPGSignature_eq:
  "\<not> unterminated sig \<Longrightarrow> writeGPGSignature w sig = (w @ emit_sig sig, None)"
  by (simp add: writeGPGSignature_def writeGPGSignature_loop_eq emit_sig_def
      gpgSignaturePrefix_def)

lemma writeGPGSignature_bad:
  "unterminated sig \<Longrightarrow> \<exists>b. writeGPGSignature w sig = (b, Some WriteGPGUnterminatedLine)"
  using writeGPGSignature_err [of w sig] by (cases "writeGPGSignature w sig") simp

lemma foldl_append_concat:
  "foldl (\<lambda>buf x. buf @ f x) b xs = b @ concat (map f xs)"
  by (induction xs arbitrary: b) simp_all

lemma MarshalText_Author:
  "LF \<in> set (Author c) \<Longrightarrow> MarshalText c = Inl (AuthorContainsNewline (Author c))"
  by (simp add: MarshalText_def Contains_LF_iff)

lemma MarshalText_Committer:
  "LF \<notin> set (Author c) \<Longrightarrow> LF \<in> set (Committer c) \<Longrightarrow>
   MarshalText c = Inl (CommitterContainsNewline (Committer c))"
  by (simp add: MarshalText_def Contains_LF_iff)

lemma MarshalText_unterminated:
  assumes "LF \<notin> set (Author c)" "LF \<notin> set (Committer c)" "unterminated (GPGSignature c)"
  shows "MarshalText c = Inl (MarshalError WriteGPGUnterminatedLine)"
proof -
  obtain b where "writeGPGSignature (emit_header c) (GPGSignature c)
      = (b, Some WriteGPGUnterminatedLine)"
    using writeGPGSignature_bad [OF assms(3)] by blast
  with assms(1,2) show ?thesis
    by (simp add: MarshalText_def Contains_LF_iff Let_def foldl_append_concat emit_header_def
        parent_line_def [abs_def] user_line_def)
qed

lemma MarshalText_ok:
  assumes "LF \<notin> set (Author c)" "LF \<notin> set (Committer c)" "\<not> unterminated (GPGSignature c)"
  shows "MarshalText c = Inr (emit_header c @ emit_sig (GPGSignature c) @ [LF] @ Message c)"
proof -
  have "writeGPGSignature (emit_header c) (GPGSignature c)
      = (emit_header c @ emit_sig (GPGSignature c), None)"
    using writeGPGSignature_eq [OF assms(3)] by blast
  with assms(1,2) show ?thesis
    by (simp add: MarshalText_def Contains_LF_iff Let_def foldl_append_concat emit_header_def
        parent_line_def [abs_def] user_line_def)
qed

text \<open>
  C8. \<^verbatim>\<open>MarshalText\<close> returns an error exactly when the author contains a line feed,
  or the committer does, or the signature is not empty and its last line is
  unterminated. A line feed in the author or the committer gives an
  \<open>InvalidUser\<close> error (the users are checked first); with both users free of line
  feeds, an unterminated signature gives \<open>UnterminatedSignature\<close>.
\<close>

theorem MarshalText_error_iff:
  "((\<exists>e. MarshalText c = Inl e) \<longleftrightarrow>
      (LF \<in> set (Author c) \<or> LF \<in> set (Committer c) \<or>
       (GPGSignature c \<noteq> [] \<and> last (GPGSignature c) \<noteq> LF))) \<and>
   (LF \<in> set (Author c) \<or> LF \<in> set (Committer c) \<longrightarrow>
      (\<exists>e. MarshalText c = Inl e \<and> is_InvalidUser e)) \<and>
   (LF \<notin> set (Author c) \<and> LF \<notin> set (Committer c) \<and>
    GPGSignature c \<noteq> [] \<and> last (GPGSignature c) \<noteq> LF \<longrightarrow>
      (\<exists>e. MarshalText c = Inl e \<and> is_UnterminatedSignature e))"
proof (cases "LF \<in> set (Author c)")
  case True
  then show ?thesis by (simp add: MarshalText_Author)
next
  case a: False
  show ?thesis
  proof (cases "LF \<in> set (Committer c)")
    case True
    with a show ?thesis by (simp add: MarshalText_Committer)
  next
    case b: False
    show ?thesis
    proof (cases "unterminated (GPGSignature c)")
      case True
      with a b MarshalText_unterminated [OF a b True] show ?thesis
        by (simp add: unterminated_def)
    next
      case False
      with a b MarshalText_ok [OF a b False] show ?thesis
        by (simp add: unterminated_def)
    qed
  qed
qed

theorem MarshalText_error_iff_witness:
  "(\<exists>e. MarshalText (zero_commit\<lparr>Author := ''a'' @ [LF]\<rparr>) = Inl e \<and> is_InvalidUser e) \<and>
   (\<exists>e. MarshalText (zero_commit\<lparr>Committer := [LF]\<rparr>) = Inl e \<and> is_InvalidUser e) \<and>
   (\<exists>e. MarshalText (zero_commit\<lparr>GPGSignature := ''sig''\<rparr>) = Inl e \<and>
        is_UnterminatedSignature e) \<and>
   \<not> (\<exists>e. MarshalText (zero_commit\<lparr>GPGSignature := ''sig'' @ [LF]\<rparr>) = Inl e)"
  using MarshalText_error_iff [of "zero_commit\<lparr>Author := ''a'' @ [LF]\<rparr>"]
    MarshalText_error_iff [of "zero_commit\<lparr>Committer := [LF]\<rparr>"]
    MarshalText_error_iff [of "zero_commit\<lparr>GPGSignature := ''sig''\<rparr>"]
    MarshalText_error_iff [of "zero_commit\<lparr>GPGSignature := ''sig'' @ [LF]\<rparr>"]
  by (simp add: zero_commit_def)

text \<open>
  C10. \<^verbatim>\<open>SHA1\<close> panics, with the error of \<^verbatim>\<open>MarshalText\<close>, on every commit whose
  author or committer contains a line feed or whose non-empty signature ends in an
  unterminated line; on every other commit it returns the hash of the object header
  (\<^verbatim>\<open>commit\<close>, a space, the length of the serialization in decimal, a NUL byte)
  followed by the serialization.
\<close>

theorem SHA1_panics_iff:
  "(LF \<in> set (Author c) \<or> LF \<in> set (Committer c) \<or>
    (GPGSignature c \<noteq> [] \<and> last (GPGSignature c) \<noteq> LF) \<longrightarrow>
      (\<exists>e. MarshalText c = Inl e \<and> SHA1 sha1_sum c = Panics e)) \<and>
   (\<not> (LF \<in> set (Author c) \<or> LF \<in> set (Committer c) \<or>
       (GPGSignature c \<noteq> [] \<and> last (GPGSignature c) \<noteq> LF)) \<longrightarrow>
      (\<exists>s. MarshalText c = Inr s \<and>
           SHA1 sha1_sum c = Returns (sha1_sum (''commit '' @ decimal (length s) @ [NUL] @ s))))"
proof (cases "LF \<in> set (Author c)")
  case True
  then show ?thesis by (simp add: MarshalText_Author SHA1_def)
next
  case a: False
  show ?thesis
  proof (cases "LF \<in> set (Committer c)")
    case True
    with a show ?thesis by (simp add: MarshalText_Committer SHA1_def)
  next
    case b: False
    show ?thesis
    proof (cases "unterminated (GPGSignature c)")
      case True
      with a b MarshalText_unterminated [OF a b True] show ?thesis
        by (simp add: unterminated_def SHA1_def)
    next
      case False
      with a b MarshalText_ok [OF a b False] show ?thesis
        by (simp add: unterminated_def SHA1_def AppendPrefix_def)
    qed
  qed
qed

theorem SHA1_panics_iff_witness:
  "(\<exists>e. MarshalText (zero_commit\<lparr>Author := [LF]\<rparr>) = Inl e \<and>
        SHA1 (take 20) (zero_commit\<lparr>Author := [LF]\<rparr>) = Panics e) \<and>
   (\<exists>e. MarshalText (zero_commit\<lparr>GPGSignature := ''sig''\<rparr>) = Inl e \<and>
        SHA1 (take 20) (zero_commit\<lparr>GPGSignature := ''sig''\<rparr>) = Panics e) \<and>
   (\<exists>s. MarshalText zero_commit = Inr s \<and>
        SHA1 (take 20) zero_commit =
          Returns (take 20 (''commit '' @ decimal (length s) @ [NUL] @ s)))"
  using SHA1_panics_iff [of "zero_commit\<lparr>Author := [LF]\<rparr>" "take 20"]
    SHA1_panics_iff [of "zero_commit\<lparr>GPGSignature := ''sig''\<rparr>" "take 20"]
    SHA1_panics_iff [of zero_commit "take 20"]
  by (simp add: zero_commit_def)

subsection \<open>Parsing: the keyword and the tree line\<close>

lemma consumeString_prefix:
  "consumeString src s =
     (if take (length s) src = s then (drop (length s) src, True) else (src, False))"
proof (cases "length src < length s")
  case True
  have "take (length s) src \<noteq> s"
  proof
    assume "take (length s) src = s"
    then have "length (take (length s) src) = length s" by (rule arg_cong)
    with True show False by simp
  qed
  with True show ?thesis by (simp add: consumeString_def)
next
  case False
  then have len: "length (take (length s) src) = length s" by simp
  have "(\<forall>i<length s. src ! i = s ! i) \<longleftrightarrow> take (length s) src = s"
  proof
    assume "\<forall>i<length s. src ! i = s ! i"
    with len show "take (length s) src = s"
      by (intro nth_equalityI) simp_all
  next
    assume eq: "take (length s) src = s"
    show "\<forall>i<length s. src ! i = s ! i"
    proof (intro allI impI)
      fix i assume "i < length s"
      then have "take (length s) src ! i = src ! i" by simp
      with eq show "src ! i = s ! i" by simp
    qed
  qed
  then have "list_ex (\<lambda>i. src ! i \<noteq> s ! i) [0..<length s] \<longleftrightarrow> take (length s) src \<noteq> s"
    unfolding list_ex_iff by auto
  with False show ?thesis by (simp add: consumeString_def)
qed

lemma consumeString_Nil: "consumeString src [] = (src, True)"
  by (simp add: consumeString_prefix)

lemma consumeString_Nil_Cons: "consumeString [] (y # ys) = ([], False)"
  by (simp add: consumeString_prefix)

lemma consumeString_Cons_Cons:
  "consumeString (x # xs) (y # ys) =
     (if x = y \<and> snd (consumeString xs ys) then (fst (consumeString xs ys), True)
      else (x # xs, False))"
  by (simp add: consumeString_prefix)

lemmas consumeString_eval = consumeString_Nil consumeString_Nil_Cons consumeString_Cons_Cons

lemma consumeString_append: "consumeString (s @ rest) s = (rest, True)"
  by (simp add: consumeString_prefix)

lemma of_char_div16: "(of_char b :: nat) div 16 < 16"
  using nat_of_char_less_256 [of b] by arith

lemma of_char_hex_digit: "d < 16 \<Longrightarrow> (of_char (hex_digit d) :: nat) = (if d < 10 then 48 + d else 87 + d)"
  by (simp add: hex_digit_def)

lemma fromHexChar_hex_digit: "d < 16 \<Longrightarrow> fromHexChar (hex_digit d) = Some d"
  unfolding fromHexChar_def Let_def of_char_hex_digit by simp

lemma hex_Decode_encode: "hex_Decode (hex_encode bs) = (bs, None)"
  by (induction bs) (simp_all add: fromHexChar_hex_digit of_char_div16)

lemma length_hex_encode: "length (hex_encode bs) = 2 * length bs"
  by (induction bs) simp_all

lemma consumeHex_encode:
  "length h = length dst \<Longrightarrow> consumeHex dst (hex_encode h @ rest) = (h, rest, None)"
  by (simp add: consumeHex_def length_hex_encode hex_Decode_encode)

lemma UnmarshalText_missing_tree:
  "\<not> snd (consumeString data ''tree '') \<Longrightarrow> UnmarshalText c data = (c, Some TreeMissing)"
  by (cases "consumeString data ''tree ''") (simp add: UnmarshalText_def)

lemma UnmarshalText_reset:
  "snd (consumeString data ''tree '') \<Longrightarrow> UnmarshalText c data = UnmarshalText c2 data"
  by (cases "consumeString data ''tree ''") (simp add: UnmarshalText_def)

lemma hex_digit_10: "hex_digit 10 = CHR ''a''"
  by (simp add: hex_digit_def char_of_def bit_Suc_0_iff)

lemma hex_encode_aa: "hex_encode aa_hash = ''aaaaaaaaaaaaaaaaaaaaaaaaaaaaaaaaaaaaaaaa''"
  by (simp add: aa_hash_def hex_digit_10)

lemma aa_hash_not_zero: "aa_hash \<noteq> zero_hash"
proof
  assume "aa_hash = zero_hash"
  then have "aa_hash ! 0 = zero_hash ! 0" by simp
  then show False by (simp add: aa_hash_def zero_hash_def)
qed

lemma UnmarshalText_cut_commit:
  "UnmarshalText c cut_commit = (zero_commit\<lparr>Tree := aa_hash\<rparr>, Some TreeTrailingData)"
proof -
  have e: "cut_commit = ''tree '' @ hex_encode aa_hash"
    by (simp add: cut_commit_def hex_encode_aa)
  have 1: "consumeString cut_commit ''tree '' = (hex_encode aa_hash, True)"
    unfolding e by (rule consumeString_append)
  have 2: "consumeHex zero_hash (hex_encode aa_hash) = (aa_hash, [], None)"
    using consumeHex_encode [of aa_hash zero_hash "[]"] by (simp add: aa_hash_def zero_hash_def)
  show ?thesis
    unfolding UnmarshalText_def 1
    by (simp add: 2 zero_commit_def consumeString_eval)
qed

subsection \<open>Round trip: numbers and zones\<close>

lemma of_char_digit_char: "d < 10 \<Longrightarrow> (of_char (digit_char d) :: nat) = 48 + d"
  by (simp add: digit_char_def)

lemma is_digit_digit_char: "d < 10 \<Longrightarrow> is_digit (digit_char d)"
  by (simp add: is_digit_def of_char_digit_char)

lemma digit_val_digit_char: "d < 10 \<Longrightarrow> digit_val (digit_char d) = d"
  by (simp add: digit_val_def of_char_digit_char)

lemma decimal_digits: "list_all is_digit (decimal n)"
proof (induction n rule: decimal.induct)
  case (1 n)
  then show ?case
    by (subst decimal.simps) (simp add: is_digit_digit_char)
qed

lemma decimal_not_Nil: "decimal n \<noteq> []"
  by (subst decimal.simps) simp

lemma digits_val_snoc: "digits_val (ds @ [c]) = digits_val ds * 10 + digit_val c"
  by (simp add: digits_val_def)

lemma digits_val_decimal: "digits_val (decimal n) = n"
proof (induction n rule: decimal.induct)
  case (1 n)
  show ?case
  proof (cases "n < 10")
    case True
    then show ?thesis
      by (subst decimal.simps) (simp add: digits_val_def digit_val_digit_char)
  next
    case False
    with 1 show ?thesis
      by (subst decimal.simps) (simp add: digits_val_snoc digit_val_digit_char)
  qed
qed

lemma is_digit_not_special:
  "is_digit c \<Longrightarrow> c \<noteq> CHR ''-'' \<and> c \<noteq> CHR ''+'' \<and> c \<noteq> SP \<and> c \<noteq> LF"
  by (auto simp: is_digit_def)

lemma ParseInt_decimal:
  assumes "n < 2 ^ 63"
  shows "ParseInt (decimal n) = Inr (int n)"
proof -
  obtain c cs where s: "decimal n = c # cs"
    using decimal_not_Nil [of n] by (cases "decimal n") auto
  have "is_digit c" using decimal_digits [of n] s by simp
  then have c: "c \<noteq> CHR ''-''" "c \<noteq> CHR ''+''"
    using is_digit_not_special by blast+
  have d: "list_all is_digit (c # cs)" "digits_val (c # cs) = n"
    using decimal_digits [of n] digits_val_decimal [of n] s by simp_all
  show ?thesis
    unfolding ParseInt_def s using c d assms by (simp add: Let_def)
qed

lemma ParseInt_minus_decimal:
  assumes "n \<le> 2 ^ 63"
  shows "ParseInt (CHR ''-'' # decimal n) = Inr (- int n)"
  unfolding ParseInt_def
  using decimal_digits [of n] digits_val_decimal [of n] decimal_not_Nil [of n] assms
  by (simp add: Let_def)

lemma ParseInt_FormatInt:
  assumes "- (2 ^ 63) \<le> i" "i < 2 ^ 63"
  shows "ParseInt (FormatInt i) = Inr i"
proof (cases "i < 0")
  case True
  with assms have "nat (- i) \<le> 2 ^ 63" by (simp add: nat_le_iff)
  from ParseInt_minus_decimal [OF this] True show ?thesis
    by (simp add: FormatInt_def)
next
  case False
  with assms have "nat i < 2 ^ 63" by (simp add: nat_less_iff)
  from ParseInt_decimal [OF this] False show ?thesis
    by (simp add: FormatInt_def)
qed

lemma ParseInt_Unix: "ParseInt (FormatInt (Unix t)) = Inr (Unix t)"
proof -
  have "- (2 ^ 63) \<le> sint (unix_sec t)" "sint (unix_sec t) < 2 ^ 63"
    using sint_ge [of "unix_sec t"] sint_lt [of "unix_sec t"] by simp_all
  then show ?thesis unfolding Unix_def by (rule ParseInt_FormatInt)
qed

lemma FormatInt_chars: "c \<in> set (FormatInt i) \<Longrightarrow> c \<noteq> SP \<and> c \<noteq> LF"
  using decimal_digits [of "nat i"] decimal_digits [of "nat (- i)"]
  by (auto simp: FormatInt_def list_all_iff dest: is_digit_not_special split: if_splits)

lemma digit_char_0: "digit_char 0 = CHR ''0''"
  by (simp add: digit_char_def char_of_def bit_Suc_0_iff)

lemma appendInt2_two: "x < 100 \<Longrightarrow> appendInt2 x = [digit_char (x div 10), digit_char (x mod 10)]"
proof (cases "x < 10")
  case True
  then show ?thesis
    by (simp add: appendInt2_def decimal.simps [of x] digit_char_0)
next
  case False
  assume "x < 100"
  with False have "x div 10 < 10" by simp
  with False show ?thesis
    by (simp add: appendInt2_def decimal.simps [of x] decimal.simps [of "x div 10"])
qed

lemma abs_div_60_times: "(x::int) mod 60 = 0 \<Longrightarrow> int (nat (\<bar>x\<bar> div 60)) * 60 = \<bar>x\<bar>"
proof -
  assume "x mod 60 = 0"
  then have "60 dvd x" by presburger
  then obtain m where m: "x = 60 * m" by (rule dvdE)
  have "\<bar>x\<bar> = 60 * \<bar>m\<bar>" unfolding m by (simp add: abs_mult)
  then show ?thesis by simp
qed

lemma trunc_div_60:
  "(if x < 0 then - ((- x) div 60) else x div 60) =
     (if x < 0 then - int (nat (\<bar>x\<bar> div 60)) else int (nat (\<bar>x\<bar> div 60)))"
  by (cases "x < 0") simp_all

lemma trunc_div_60_neg:
  "(x::int) mod 60 = 0 \<Longrightarrow>
   ((if x < 0 then - int (nat (\<bar>x\<bar> div 60)) else int (nat (\<bar>x\<bar> div 60))) < 0) = (x < 0)"
  using abs_div_60_times [of x] by (cases "x < 0") auto

lemma abs_div_60_bound: "\<bar>x::int\<bar> < 360000 \<Longrightarrow> nat (\<bar>x\<bar> div 60) < 6000"
  by (cases "x < 0") simp_all

lemma Format_0700_shape:
  assumes "zone_offset t mod 60 = 0" "\<bar>zone_offset t\<bar> < 360000"
  defines "z \<equiv> nat (\<bar>zone_offset t\<bar> div 60)"
  shows "Format_0700 t =
           [if zone_offset t < 0 then CHR ''-'' else CHR ''+'',
            digit_char (z div 60 div 10), digit_char (z div 60 mod 10),
            digit_char (z mod 60 div 10), digit_char (z mod 60 mod 10)]"
    and "z < 6000" and "int z * 60 = \<bar>zone_offset t\<bar>"
proof -
  let ?o = "zone_offset t"
  show z6: "z < 6000" using assms(2) unfolding z_def by (rule abs_div_60_bound)
  show "int z * 60 = \<bar>?o\<bar>" using assms(1) unfolding z_def by (rule abs_div_60_times)
  have zone: "(if ?o < 0 then - ((- ?o) div 60) else ?o div 60)
                = (if ?o < 0 then - int z else int z)"
    unfolding z_def by (rule trunc_div_60)
  have neg: "((if ?o < 0 then - int z else int z) < 0) = (?o < 0)"
    using assms(1) unfolding z_def by (rule trunc_div_60_neg)
  have az: "nat \<bar>if ?o < 0 then - int z else int z\<bar> = z" by simp
  have h: "z div 60 < 100" and mi: "z mod 60 < 100" using z6 by simp_all
  show "Format_0700 t =
           [if ?o < 0 then CHR ''-'' else CHR ''+'',
            digit_char (z div 60 div 10), digit_char (z div 60 mod 10),
            digit_char (z mod 60 div 10), digit_char (z mod 60 mod 10)]"
    unfolding Format_0700_def Let_def zone neg az
    by (simp add: appendInt2_two [OF h] appendInt2_two [OF mi])
qed

lemma parseTZOffset_Format:
  assumes "zone_offset t mod 60 = 0" "\<bar>zone_offset t\<bar> < 360000"
  shows "parseTZOffset (Format_0700 t) = Inr (Format_0700 t, zone_offset t)"
proof -
  define z where "z = nat (\<bar>zone_offset t\<bar> div 60)"
  note sh = Format_0700_shape [OF assms, folded z_def]
  have d: "z div 60 div 10 < 10" "z div 60 mod 10 < 10" "z mod 60 div 10 < 10" "z mod 60 mod 10 < 10"
    using sh(2) by simp_all
  have "(int (z div 60 div 10) * 10 + int (z div 60 mod 10)) * 60 * 60
        + (int (z mod 60 div 10) * 10 + int (z mod 60 mod 10)) * 60 = int z * 60"
  proof -
    have "int (z div 60 div 10) * 10 + int (z div 60 mod 10) = int (z div 60)"
      by (simp add: of_nat_div of_nat_mod)
    moreover have "int (z mod 60 div 10) * 10 + int (z mod 60 mod 10) = int (z mod 60)"
      by (simp add: of_nat_div of_nat_mod)
    moreover have "int (z div 60) * 60 + int (z mod 60) = int z"
      by (simp add: of_nat_div of_nat_mod)
    ultimately show ?thesis by (simp add: algebra_simps)
  qed
  then have off: "((int (z div 60 div 10) * 10 + int (z div 60 mod 10)) * 60 * 60
        + (int (z mod 60 div 10) * 10 + int (z mod 60 mod 10)) * 60) = \<bar>zone_offset t\<bar>"
    using sh(3) by simp
  show ?thesis
    unfolding parseTZOffset_def
    apply (subst (1 2 3 4 5 6 7 8 9) sh(1))
    using d off
    apply (simp add: Let_def is_digit_digit_char digit_val_digit_char sh(1))
    done
qed

lemma Format_0700_chars:
  assumes "zone_offset t mod 60 = 0" "\<bar>zone_offset t\<bar> < 360000"
  shows "SP \<notin> set (Format_0700 t) \<and> LF \<notin> set (Format_0700 t)"
proof -
  define z where "z = nat (\<bar>zone_offset t\<bar> div 60)"
  note sh = Format_0700_shape [OF assms, folded z_def]
  have d: "z div 60 div 10 < 10" "z div 60 mod 10 < 10" "z mod 60 div 10 < 10" "z mod 60 mod 10 < 10"
    using sh(2) by simp_all
  show ?thesis
    unfolding sh(1)
    using d [THEN is_digit_digit_char, THEN is_digit_not_special] by auto
qed

subsection \<open>Round trip: parsing what was emitted\<close>

lemma IndexByte_append: "c \<notin> set xs \<Longrightarrow> IndexByte (xs @ c # ys) c = Some (length xs)"
  by (induction xs) auto

lemma LastIndexByte_append: "c \<notin> set ys \<Longrightarrow> LastIndexByte (xs @ c # ys) c = Some (length xs)"
  using IndexByte_append [of c "rev ys" "rev xs"] by (simp add: LastIndexByte_def)

lemma Unix_In_FixedZone_git_time:
  "git_time t \<Longrightarrow> Unix_In_FixedZone (Unix t) (Format_0700 t) (zone_offset t) = t"
  by (simp add: git_time_def Unix_In_FixedZone_def Unix_def)

lemma consumeUser_user_line:
  assumes u: "LF \<notin> set u" and t: "git_time t"
  shows "consumeUser (user_line u t @ rest) = (u, t, rest, None)"
proof -
  define ts where "ts = FormatInt (Unix t)"
  define tz where "tz = Format_0700 t"
  have tsc: "SP \<notin> set ts" "LF \<notin> set ts"
    using FormatInt_chars [of _ "Unix t"] by (auto simp: ts_def)
  have zo: "zone_offset t mod 60 = 0" "\<bar>zone_offset t\<bar> < 360000"
    using t by (simp_all add: git_time_def)
  have tzc: "SP \<notin> set tz" "LF \<notin> set tz"
    using Format_0700_chars [OF zo] by (simp_all add: tz_def)
  define line where "line = u @ SP # ts @ SP # tz"
  define k where "k = length (u @ SP # ts)"
  have src: "user_line u t @ rest = line @ LF # rest"
    by (simp add: user_line_def line_def ts_def tz_def)
  have "LF \<notin> set line" using u tsc tzc by (simp add: line_def)
  then have eol: "IndexByte (line @ LF # rest) LF = Some (length line)"
    by (rule IndexByte_append)
  have l1: "line = (u @ SP # ts) @ SP # tz" by (simp add: line_def)
  have tl: "take (length line) (line @ LF # rest) = line" by simp
  have dl: "drop (length line + 1) (line @ LF # rest) = rest" by simp
  have tsEnd: "LastIndexByte line SP = Some k"
    unfolding l1 k_def using tzc(1) by (rule LastIndexByte_append)
  have tk: "take k line = u @ SP # ts"
    unfolding l1 k_def by simp
  have uEnd: "LastIndexByte (take k line) SP = Some (length u)"
    unfolding tk using tsc(1) by (rule LastIndexByte_append)
  have p1: "ParseInt (drop (length u + 1) (take k line)) = Inr (Unix t)"
    unfolding tk by (simp add: ts_def ParseInt_Unix)
  have p2: "parseTZOffset (drop (k + 1) line) = Inr (tz, zone_offset t)"
    unfolding l1 k_def using parseTZOffset_Format [OF zo] by (simp add: tz_def)
  have us: "take (length u) line = u" by (simp add: line_def)
  have tm: "Unix_In_FixedZone (Unix t) tz (zone_offset t) = t"
    unfolding tz_def using t by (rule Unix_In_FixedZone_git_time)
  show ?thesis
    unfolding src consumeUser_def eol
    by (simp only: option.case Let_def tl dl tsEnd uEnd p1 p2 sum.case prod.case us tm)
qed

lemma parseParents_parent_lines:
  assumes "\<forall>p\<in>set ps. length p = 20" "consumeString rest ''parent '' = (rest, False)"
  shows "parseParents c (concat (map parent_line ps) @ rest) i
           = (c\<lparr>Parents := Parents c @ ps\<rparr>, rest, None)"
  using assms(1)
proof (induction ps arbitrary: c i)
  case Nil
  then show ?case
    by (subst parseParents.simps) (simp add: assms(2))
next
  case (Cons p ps)
  define d1 where "d1 = hex_encode p @ [LF] @ concat (map parent_line ps) @ rest"
  define d2 where "d2 = [LF] @ concat (map parent_line ps) @ rest"
  define d3 where "d3 = concat (map parent_line ps) @ rest"
  have 0: "concat (map parent_line (p # ps)) @ rest = ''parent '' @ d1"
    by (simp add: parent_line_def d1_def)
  have 1: "consumeString (''parent '' @ d1) ''parent '' = (d1, True)"
    by (rule consumeString_append)
  have 2: "consumeHex zero_hash d1 = (p, d2, None)"
    unfolding d1_def d2_def using Cons.prems by (intro consumeHex_encode) (simp add: zero_hash_def)
  have 3: "consumeString d2 [LF] = (d3, True)"
    unfolding d2_def d3_def by (rule consumeString_append)
  have 4: "parseParents (c\<lparr>Parents := Parents c @ [p]\<rparr>) d3 (i + 1)
             = (c\<lparr>Parents := Parents c @ [p]\<rparr>\<lparr>Parents := Parents (c\<lparr>Parents := Parents c @ [p]\<rparr>) @ ps\<rparr>, rest, None)"
    unfolding d3_def using Cons.prems by (intro Cons.IH) simp
  show ?case
    unfolding 0
    by (subst parseParents.simps) (simp only: 1 2 3 4 prod.case bool.case option.case Let_def, simp)
qed

lemma IndexByte_Some_take:
  "IndexByte xs c = Some i \<Longrightarrow> take (Suc i) xs = take i xs @ [c] \<and> c \<notin> set (take i xs)"
proof (induction xs arbitrary: i)
  case Nil
  then show ?case by simp
next
  case (Cons x xs)
  then show ?case by (cases i) (auto split: if_splits)
qed

lemma consumeSignature_loop_fold:
  assumes "\<not> unterminated sig"
  shows "consumeSignature_loop acc (fold_lines sig @ LF # msg) = (acc @ sig, LF # msg, None)"
  using assms
proof (induction sig arbitrary: acc rule: fold_lines.induct)
  case (1 sig)
  show ?case
  proof (cases "sig = []")
    case True
    then show ?thesis
      by (subst fold_lines.simps, subst consumeSignature_loop.simps) simp
  next
    case False
    with "1.prems" have "LF \<in> set sig"
      by (metis last_in_set unterminated_def)
    then obtain i where i: "IndexByte sig LF = Some i"
      by (cases "IndexByte sig LF") (auto simp: IndexByte_None_iff)
    define l where "l = take i sig"
    define r where "r = fold_lines (drop (Suc i) sig) @ LF # msg"
    have tk: "take (Suc i) sig = l @ [LF]" and nl: "LF \<notin> set l"
      using IndexByte_Some_take [OF i] by (simp_all add: l_def)
    have li: "length l = i" using IndexByte_lt [OF i] by (simp add: l_def)
    have f: "fold_lines sig @ LF # msg = SP # l @ LF # r"
      by (subst fold_lines.simps) (simp add: False i tk r_def)
    have "LF \<notin> set (SP # l)" using nl by simp
    then have "IndexByte ((SP # l) @ LF # r) LF = Some (length (SP # l))"
      by (rule IndexByte_append)
    then have ix: "IndexByte (SP # l @ LF # r) LF = Some (Suc i)"
      by (simp add: li)
    have a: "drop 1 (take (Suc i + 1) (SP # l @ LF # r)) = l @ [LF]"
      by (simp add: li)
    have b: "drop (Suc i + 1) (SP # l @ LF # r) = r"
      by (simp add: li)
    have ih: "consumeSignature_loop (acc @ l @ [LF]) r = ((acc @ l @ [LF]) @ drop (Suc i) sig, LF # msg, None)"
      unfolding r_def using False i "1.prems" unterminated_drop [OF i]
      by (intro "1.IH") simp_all
    have sg: "l @ [LF] @ drop (Suc i) sig = sig"
      using tk append_take_drop_id [of "Suc i" sig] by simp
    show ?thesis
      unfolding f
      apply (subst consumeSignature_loop.simps)
      apply (simp only: ix a b option.case)
      using ih sg apply simp
      done
  qed
qed

lemma consumeSignature_emit_sig:
  assumes "\<not> unterminated sig" "sig \<noteq> []"
  shows "\<exists>d. emit_sig sig @ LF # msg = ''gpgsig '' @ d \<and>
             consumeSignature d = (sig, LF # msg, None)"
proof -
  from assms have "LF \<in> set sig"
    by (metis last_in_set unterminated_def)
  then obtain i where i: "IndexByte sig LF = Some i"
    by (cases "IndexByte sig LF") (auto simp: IndexByte_None_iff)
  define l where "l = take i sig"
  define r where "r = fold_lines (drop (Suc i) sig) @ LF # msg"
  have tk: "take (Suc i) sig = l @ [LF]" and nl: "LF \<notin> set l"
    using IndexByte_Some_take [OF i] by (simp_all add: l_def)
  have li: "length l = i" using IndexByte_lt [OF i] by (simp add: l_def)
  have f: "fold_lines sig @ LF # msg = SP # l @ LF # r"
    by (subst fold_lines.simps) (simp add: assms(2) i tk r_def)
  have e: "emit_sig sig @ LF # msg = ''gpgsig '' @ (l @ LF # r)"
    using f by (simp add: emit_sig_def assms(2))
  have ix: "IndexByte (l @ LF # r) LF = Some i"
    using IndexByte_append [OF nl, of r] by (simp add: li)
  have a: "take (i + 1) (l @ LF # r) = l @ [LF]" by (simp add: li)
  have b: "drop (i + 1) (l @ LF # r) = r" by (simp add: li)
  have lp: "consumeSignature_loop (l @ [LF]) r = ((l @ [LF]) @ drop (Suc i) sig, LF # msg, None)"
    unfolding r_def using assms(1) unterminated_drop [OF i]
    by (intro consumeSignature_loop_fold) simp
  have sg: "l @ [LF] @ drop (Suc i) sig = sig"
    using tk append_take_drop_id [of "Suc i" sig] by simp
  have "consumeSignature (l @ LF # r) = (sig, LF # msg, None)"
    unfolding consumeSignature_def ix
    apply (simp only: option.case a b lp)
    using sg apply simp
    done
  with e show ?thesis by blast
qed

lemma UnmarshalText_emit:
  assumes a: "LF \<notin> set (Author c)" and b: "LF \<notin> set (Committer c)"
    and g: "\<not> unterminated (GPGSignature c)"
    and t: "length (Tree c) = 20" and ps: "\<forall>p\<in>set (Parents c). length p = 20"
    and at: "git_time (AuthorTime c)" and ct: "git_time (CommitTime c)"
  shows "UnmarshalText c0 (emit_header c @ emit_sig (GPGSignature c) @ [LF] @ Message c)
           = (c, None)"
proof -
  define m where "m = LF # Message c"
  define dg where "dg = emit_sig (GPGSignature c) @ m"
  define dcu where "dcu = user_line (Committer c) (CommitTime c) @ dg"
  define dc where "dc = ''committer '' @ dcu"
  define dau where "dau = user_line (Author c) (AuthorTime c) @ dc"
  define da where "da = ''author '' @ dau"
  define dp where "dp = concat (map parent_line (Parents c)) @ da"
  define dl where "dl = [LF] @ dp"
  define dt where "dt = hex_encode (Tree c) @ dl"
  define c1 where "c1 = zero_commit\<lparr>Tree := Tree c\<rparr>"
  define c2 where "c2 = c1\<lparr>Parents := Parents c1 @ Parents c\<rparr>"
  define c3 where "c3 = c2\<lparr>Author := Author c, AuthorTime := AuthorTime c\<rparr>"
  define c4 where "c4 = c3\<lparr>Committer := Committer c, CommitTime := CommitTime c\<rparr>"
  have 0: "emit_header c @ emit_sig (GPGSignature c) @ [LF] @ Message c = ''tree '' @ dt"
    by (simp add: emit_header_def dt_def dl_def dp_def da_def dau_def dc_def dcu_def dg_def m_def)
  have 1: "consumeString (''tree '' @ dt) ''tree '' = (dt, True)"
    by (rule consumeString_append)
  have 2: "consumeHex (Tree zero_commit) dt = (Tree c, dl, None)"
    unfolding dt_def using t by (intro consumeHex_encode) (simp add: zero_commit_def zero_hash_def)
  have 3: "consumeString dl [LF] = (dp, True)"
    unfolding dl_def by (rule consumeString_append)
  have np: "consumeString da ''parent '' = (da, False)"
    by (simp add: da_def consumeString_eval)
  have 4: "parseParents c1 dp 0 = (c2, da, None)"
    unfolding dp_def c2_def using ps np by (rule parseParents_parent_lines)
  have 5: "consumeString da ''author '' = (dau, True)"
    unfolding da_def by (rule consumeString_append)
  have 6: "consumeUser dau = (Author c, AuthorTime c, dc, None)"
    unfolding dau_def using a at by (rule consumeUser_user_line)
  have 7: "consumeString dc ''committer '' = (dcu, True)"
    unfolding dc_def by (rule consumeString_append)
  have 8: "consumeUser dcu = (Committer c, CommitTime c, dg, None)"
    unfolding dcu_def using b ct by (rule consumeUser_user_line)
  have 10: "consumeString m [LF] = (Message c, True)"
    by (simp add: m_def consumeString_eval)
  have fin: "c4\<lparr>GPGSignature := GPGSignature c, Message := Message c\<rparr> = c"
    by (simp add: c4_def c3_def c2_def c1_def zero_commit_def)
  show ?thesis
  proof (cases "GPGSignature c = []")
    case True
    then have 9: "consumeString dg ''gpgsig '' = (m, False)"
      by (simp add: dg_def emit_sig_def m_def consumeString_eval)
    have fin': "c4\<lparr>Message := Message c\<rparr> = c"
      using fin True by (simp add: c4_def c3_def c2_def c1_def zero_commit_def)
    show ?thesis
      unfolding 0 UnmarshalText_def
      by (simp only: 1 2 3 4 5 6 7 8 9 10 prod.case bool.case option.case Let_def
          c1_def [symmetric] c3_def [symmetric] c4_def [symmetric] fin')
  next
    case False
    from consumeSignature_emit_sig [OF g False, of "Message c"]
    obtain d where d: "dg = ''gpgsig '' @ d"
      and cs: "consumeSignature d = (GPGSignature c, m, None)"
      by (auto simp: dg_def m_def)
    have 9: "consumeString dg ''gpgsig '' = (d, True)"
      unfolding d by (rule consumeString_append)
    show ?thesis
      unfolding 0 UnmarshalText_def
      by (simp only: 1 2 3 4 5 6 7 8 9 cs 10 prod.case bool.case option.case Let_def
          c1_def [symmetric] c3_def [symmetric] c4_def [symmetric] fin)
  qed
qed

lemma digit_char_8: "digit_char 8 = CHR ''8''"
  by (simp add: digit_char_def char_of_def bit_Suc_0_iff)

lemma Format_0700_pst: "Format_0700 pst_time = ''-0800''"
  by (simp add: Format_0700_def pst_time_def appendInt2_def decimal.simps digit_char_8 digit_char_0)

lemma git_time_pst: "git_time pst_time"
  unfolding git_time_def Format_0700_pst by (simp add: pst_time_def)

lemma Format_0700_nsec: "Format_0700 (t\<lparr>nsec := n\<rparr>) = Format_0700 t"
  by (simp add: Format_0700_def)

lemma MarshalText_nsec:
  "MarshalText (c\<lparr>AuthorTime := (AuthorTime c)\<lparr>nsec := n\<rparr>\<rparr>) = MarshalText c"
  by (simp add: MarshalText_def Format_0700_nsec Unix_def)

lemma digit_chars:
  "digit_char (Suc 0) = CHR ''1''" "digit_char 2 = CHR ''2''" "digit_char 3 = CHR ''3''"
  "digit_char 4 = CHR ''4''" "digit_char 5 = CHR ''5''" "digit_char 6 = CHR ''6''"
  "digit_char 7 = CHR ''7''" "digit_char 9 = CHR ''9''"
  unfolding digit_char_def by (simp_all add: char_of_def bit_Suc_0_iff)

lemma Unix_pst: "Unix pst_time = 1578610200"
  by (simp add: Unix_def pst_time_def)

lemma FormatInt_pst: "FormatInt (Unix pst_time) = ''1578610200''"
  unfolding Unix_pst FormatInt_def
  by (simp add: decimal.simps digit_chars digit_char_0 digit_char_8)

lemma hex_digit_11: "hex_digit 11 = CHR ''b''"
  by (simp add: hex_digit_def char_of_def bit_Suc_0_iff)

lemma hex_encode_bb: "hex_encode bb_hash = ''bbbbbbbbbbbbbbbbbbbbbbbbbbbbbbbbbbbbbbbb''"
  by (simp add: bb_hash_def hex_digit_11)

lemma sample_wf:
  "LF \<notin> set (Author sample_commit)" "LF \<notin> set (Committer sample_commit)"
  "\<not> unterminated (GPGSignature sample_commit)"
  "length (Tree sample_commit) = 20" "\<forall>p\<in>set (Parents sample_commit). length p = 20"
  "git_time (AuthorTime sample_commit)" "git_time (CommitTime sample_commit)"
  by (simp_all add: sample_commit_def unterminated_def aa_hash_def bb_hash_def git_time_pst)

lemma fold_lines_sample: "fold_lines (''ab'' @ [LF] @ ''cd'' @ [LF]) = '' ab'' @ [LF] @ '' cd'' @ [LF]"
  by (simp add: fold_lines.simps)

lemma MarshalText_sample: "MarshalText sample_commit = Inr sample_bytes"
  unfolding MarshalText_ok [OF sample_wf(1-3)]
  using fold_lines_sample
  by (simp add: emit_header_def emit_sig_def sample_commit_def sample_bytes_def hex_encode_aa
      hex_encode_bb parent_line_def user_line_def FormatInt_pst Format_0700_pst)

lemma ParseCommit_sample: "ParseCommit sample_bytes = (sample_commit, None)"
  using UnmarshalText_emit [OF sample_wf, of zero_commit] MarshalText_sample
  by (simp add: MarshalText_ok [OF sample_wf(1-3)] ParseCommit_def)

text \<open>
  C1 fails as stated. The commit \<open>nanos_commit\<close> is well formed in the claim's sense
  (no line feed in author or committer, a signature of LF-terminated lines), yet the
  bytes \<^verbatim>\<open>MarshalText\<close> emits for it parse to a different commit: the format
  holds whole seconds only, so the author time comes back without its nanoseconds.
\<close>

theorem commit_roundtrip_counterexample:
  "LF \<notin> set (Author nanos_commit) \<and> LF \<notin> set (Committer nanos_commit) \<and>
   GPGSignature nanos_commit \<noteq> [] \<and> last (GPGSignature nanos_commit) = LF \<and>
   MarshalText nanos_commit = Inr sample_bytes \<and>
   ParseCommit sample_bytes = (sample_commit, None) \<and>
   sample_commit \<noteq> nanos_commit"
proof -
  have "MarshalText nanos_commit = MarshalText sample_commit"
    using MarshalText_nsec [where c = sample_commit and n = 500]
    by (simp add: nanos_commit_def sample_commit_def)
  moreover have "sample_commit \<noteq> nanos_commit"
    by (simp add: nanos_commit_def sample_commit_def pst_time_def)
  ultimately show ?thesis
    using ParseCommit_sample MarshalText_sample
    by (simp add: nanos_commit_def sample_commit_def)
qed

text \<open>
  C1, as amended. For every commit whose author and committer contain no line feed,
  whose signature is empty or ends in a line feed, and whose author and commit times
  are whole seconds in a fixed zone named by its own \<^verbatim>\<open>-0700\<close> offset (a whole
  number of minutes, under a hundred hours), \<^verbatim>\<open>MarshalText\<close> succeeds, parsing the
  bytes it emits yields the commit again (on any receiver, and through
  \<^verbatim>\<open>ParseCommit\<close>), and \<^verbatim>\<open>SHA1\<close> returns the hash of the bytes \<^verbatim>\<open>commit\<close>,
  space, decimal length, NUL, followed by the emitted bytes. The two length conditions
  say that the hashes are values of the 20-byte array type.
\<close>

theorem commit_roundtrip:
  assumes "LF \<notin> set (Author c)" and "LF \<notin> set (Committer c)"
    and "GPGSignature c = [] \<or> last (GPGSignature c) = LF"
    and "git_time (AuthorTime c)" and "git_time (CommitTime c)"
    and "length (Tree c) = 20" and "list_all (\<lambda>p. length p = 20) (Parents c)"
  shows "\<exists>s. MarshalText c = Inr s \<and> UnmarshalText c0 s = (c, None) \<and>
             ParseCommit s = (c, None) \<and>
             SHA1 sha1_sum c = Returns (sha1_sum (''commit '' @ decimal (length s) @ [NUL] @ s))"
proof -
  have g: "\<not> unterminated (GPGSignature c)"
    using assms(3) by (auto simp: unterminated_def)
  have ps: "\<forall>p\<in>set (Parents c). length p = 20"
    using assms(7) by (simp add: list_all_iff)
  note m = MarshalText_ok [OF assms(1,2) g]
  note u = UnmarshalText_emit [OF assms(1,2) g assms(6) ps assms(4,5)]
  show ?thesis
    unfolding m ParseCommit_def
    using u [of c0] u [of zero_commit] by (simp add: SHA1_def m AppendPrefix_def)
qed

theorem commit_roundtrip_witness:
  "LF \<notin> set (Author sample_commit) \<and> LF \<notin> set (Committer sample_commit) \<and>
   last (GPGSignature sample_commit) = LF \<and>
   git_time (AuthorTime sample_commit) \<and> git_time (CommitTime sample_commit) \<and>
   length (Tree sample_commit) = 20 \<and>
   list_all (\<lambda>p. length p = 20) (Parents sample_commit) \<and>
   (\<exists>s. MarshalText sample_commit = Inr s \<and>
        UnmarshalText (zero_commit\<lparr>Message := ''old''\<rparr>) s = (sample_commit, None) \<and>
        ParseCommit s = (sample_commit, None) \<and>
        SHA1 (take 20) sample_commit =
          Returns (take 20 (''commit '' @ decimal (length s) @ [NUL] @ s)))"
proof -
  have h: "LF \<notin> set (Author sample_commit)" "LF \<notin> set (Committer sample_commit)"
    "GPGSignature sample_commit = [] \<or> last (GPGSignature sample_commit) = LF"
    "git_time (AuthorTime sample_commit)" "git_time (CommitTime sample_commit)"
    "length (Tree sample_commit) = 20"
    "list_all (\<lambda>p. length p = 20) (Parents sample_commit)"
    by (simp_all add: sample_commit_def aa_hash_def bb_hash_def git_time_pst)
  have l: "last (GPGSignature sample_commit) = LF"
    by (simp add: sample_commit_def)
  from commit_roundtrip [OF h, of "zero_commit\<lparr>Message := ''old''\<rparr>" "take 20"] h l
  show ?thesis by blast
qed

subsection \<open>Parsing: the receiver after a failure\<close>

lemma parseParents_frame_fst:
  "(fst (parseParents c d i))\<lparr>Parents := ps\<rparr> = c\<lparr>Parents := ps\<rparr>"
proof (induction c d i rule: parseParents.induct)
  case (1 c data i)
  show ?case
    apply (subst parseParents.simps)
    apply (auto split: prod.splits bool.splits option.splits simp: Let_def)
    using 1 apply fastforce
    done
qed

lemma parseParents_frame:
  assumes "parseParents c d i = (c', d', e)"
  shows "c' = c\<lparr>Parents := Parents c'\<rparr>"
proof -
  have "c'\<lparr>Parents := Parents c'\<rparr> = c\<lparr>Parents := Parents c'\<rparr>"
    using parseParents_frame_fst [where c = c and d = d and i = i and ps = "Parents c'"] assms by simp
  then show ?thesis by simp
qed

lemma parseParents_reached_snd:
  "case snd (snd (parseParents c d i)) of None \<Rightarrow> True | Some e \<Rightarrow> reached e = 2"
proof (induction c d i rule: parseParents.induct)
  case (1 c data i)
  show ?case
    apply (subst parseParents.simps)
    apply (auto split: prod.splits bool.splits option.splits simp: Let_def)
    using 1 apply fastforce
    done
qed

lemma parseParents_reached:
  "parseParents c d i = (c', d', Some e) \<Longrightarrow> reached e = 2"
  using parseParents_reached_snd [of c d i] by simp


lemma consumeUser_error:
  "consumeUser src = (u, t, d, Some x) \<Longrightarrow> u = [] \<and> t = zero_time"
  by (auto simp: consumeUser_def Let_def split: option.splits sum.splits prod.splits)

lemma UnmarshalText_failure_fields:
  assumes "snd (consumeString data ''tree '')" "UnmarshalText c data = (c', Some e)"
  shows "1 \<le> reached e \<and>
         c' = \<lparr>Tree = fst (tree_read data),
               Parents = (if 2 \<le> reached e then Parents (fst (parents_read data)) else []),
               Author = (if 3 \<le> reached e then fst (author_read data) else []),
               AuthorTime = (if 3 \<le> reached e then fst (snd (author_read data)) else zero_time),
               Committer = (if 4 \<le> reached e then fst (committer_read data) else []),
               CommitTime = (if 4 \<le> reached e then fst (snd (committer_read data)) else zero_time),
               GPGSignature = (if 4 \<le> reached e then signature_read data else []),
               Message = []\<rparr> \<and>
         (2 \<le> reached e \<longrightarrow> snd (snd (tree_read data)) = None) \<and>
         (3 \<le> reached e \<longrightarrow>
            snd (snd (parents_read data)) = None \<and> snd (snd (snd (author_read data))) = None) \<and>
         (4 \<le> reached e \<longrightarrow> snd (snd (snd (committer_read data))) = None)"
proof -
  obtain d1 where cs: "consumeString data ''tree '' = (d1, True)"
    using assms(1) by (cases "consumeString data ''tree ''") simp
  obtain tree d2 e1 where hx: "consumeHex zero_hash d1 = (tree, d2, e1)"
    by (cases "consumeHex zero_hash d1") auto
  obtain d3 b3 where c3: "consumeString d2 [LF] = (d3, b3)"
    by (cases "consumeString d2 [LF]") auto
  define z1 where "z1 = zero_commit\<lparr>Tree := tree\<rparr>"
  obtain cp d4 e2 where pp: "parseParents z1 d3 0 = (cp, d4, e2)"
    by (cases "parseParents z1 d3 0") auto
  obtain d5 b5 where c5: "consumeString d4 ''author '' = (d5, b5)"
    by (cases "consumeString d4 ''author ''") auto
  obtain u t d6 e3 where au: "consumeUser d5 = (u, t, d6, e3)"
    by (cases "consumeUser d5") auto
  obtain d7 b7 where c7: "consumeString d6 ''committer '' = (d7, b7)"
    by (cases "consumeString d6 ''committer ''") auto
  obtain u2 t2 d8 e4 where cm: "consumeUser d7 = (u2, t2, d8, e4)"
    by (cases "consumeUser d7") auto
  obtain d9 b9 where c9: "consumeString d8 ''gpgsig '' = (d9, b9)"
    by (cases "consumeString d8 ''gpgsig ''") auto
  obtain sg d10 e5 where cg: "consumeSignature d9 = (sg, d10, e5)"
    by (cases "consumeSignature d9") auto
  obtain m1 b11 where c11: "consumeString d9 [LF] = (m1, b11)"
    by (cases "consumeString d9 [LF]") auto
  obtain m2 b12 where c12: "consumeString d10 [LF] = (m2, b12)"
    by (cases "consumeString d10 [LF]") auto
  have tz: "Tree zero_commit = zero_hash" by (simp add: zero_commit_def)
  have r1: "tree_read data = (tree, d2, e1)"
    by (simp add: tree_read_def cs hx)
  have r2: "parents_read data = (cp, d4, e2)"
    by (simp add: parents_read_def r1 c3 pp z1_def [symmetric])
  have r3: "author_read data = (u, t, d6, e3)"
    by (simp add: author_read_def r2 c5 au)
  have r4: "committer_read data = (u2, t2, d8, e4)"
    by (simp add: committer_read_def r3 c7 cm)
  have r5: "signature_read data = (if b9 then sg else [])"
    by (simp add: signature_read_def r4 c9 cg)
  have fr: "cp = z1\<lparr>Parents := Parents cp\<rparr>"
    using pp by (rule parseParents_frame)
  have pr: "e2 = Some x \<Longrightarrow> reached x = 2" for x
    using pp parseParents_reached by blast
  have ue1: "e3 = Some x \<Longrightarrow> u = [] \<and> t = zero_time" for x
    using au consumeUser_error by blast
  have ue2: "e4 = Some x \<Longrightarrow> u2 = [] \<and> t2 = zero_time" for x
    using cm consumeUser_error by blast
  have A: "(case e1 of
        Some x \<Rightarrow> (z1, Some (TreeHex x))
      | None \<Rightarrow>
     (if \<not> b3 then (z1, Some TreeTrailingData) else
     (case e2 of
        Some x \<Rightarrow> (cp, Some x)
      | None \<Rightarrow>
     (if \<not> b5 then (cp, Some AuthorMissingLine) else
     (case e3 of
        Some x \<Rightarrow> (cp\<lparr>Author := u, AuthorTime := t\<rparr>, Some (AuthorUser x))
      | None \<Rightarrow>
     (if \<not> b7 then (cp\<lparr>Author := u, AuthorTime := t\<rparr>, Some CommitterMissingLine) else
     (case e4 of
        Some x \<Rightarrow> (cp\<lparr>Author := u, AuthorTime := t, Committer := u2, CommitTime := t2\<rparr>,
                    Some (CommitterUser x))
      | None \<Rightarrow>
     (if \<not> b9 then
        (if \<not> b11
         then (cp\<lparr>Author := u, AuthorTime := t, Committer := u2, CommitTime := t2\<rparr>,
               Some MessageNoBlankLine)
         else (cp\<lparr>Author := u, AuthorTime := t, Committer := u2, CommitTime := t2,
                   Message := m1\<rparr>, None))
      else
     (case e5 of
        Some x \<Rightarrow> (cp\<lparr>Author := u, AuthorTime := t, Committer := u2, CommitTime := t2,
                       GPGSignature := sg\<rparr>, Some (GPGSignatureError x))
      | None \<Rightarrow>
        (if \<not> b12
         then (cp\<lparr>Author := u, AuthorTime := t, Committer := u2, CommitTime := t2,
                  GPGSignature := sg\<rparr>, Some MessageNoBlankLine)
         else (cp\<lparr>Author := u, AuthorTime := t, Committer := u2, CommitTime := t2,
                  GPGSignature := sg, Message := m2\<rparr>, None))))))))))) = (c', Some e)"
    using assms(2) unfolding UnmarshalText_def cs
    by (simp add: tz hx z1_def [symmetric] c3 pp c5 au c7 cm c9 cg c11 c12 Let_def
        split: option.splits bool.splits)
  have zc: "z1 = \<lparr>Tree = tree, Parents = [], Author = [], AuthorTime = zero_time,
                   Committer = [], CommitTime = zero_time, GPGSignature = [], Message = []\<rparr>"
    by (simp add: z1_def zero_commit_def)
  define ps where "ps = Parents cp"
  have cpe: "cp = \<lparr>Tree = tree, Parents = ps, Author = [], AuthorTime = zero_time,
                   Committer = [], CommitTime = zero_time, GPGSignature = [], Message = []\<rparr>"
    by (subst fr) (simp add: zc ps_def)
  show ?thesis
    unfolding r1 r2 r3 r4 r5
    using A pr ue1 ue2
    unfolding cpe
    by (auto simp: zc split: option.splits bool.splits if_splits)
qed


lemma UnmarshalText_cut_header:
  assumes t: "length tr = 20" and ps: "\<forall>p\<in>set ps. length p = 20"
    and a: "LF \<notin> set u" and at: "git_time tm"
    and nc: "consumeString rest ''committer '' = (rest, False)"
  shows "UnmarshalText c0 (''tree '' @ hex_encode tr @ [LF] @ concat (map parent_line ps)
                           @ ''author '' @ user_line u tm @ rest)
           = (zero_commit\<lparr>Tree := tr, Parents := ps, Author := u, AuthorTime := tm\<rparr>,
              Some CommitterMissingLine)"
proof -
  define dau where "dau = user_line u tm @ rest"
  define da where "da = ''author '' @ dau"
  define dp where "dp = concat (map parent_line ps) @ da"
  define dl where "dl = [LF] @ dp"
  define dt where "dt = hex_encode tr @ dl"
  define c1 where "c1 = zero_commit\<lparr>Tree := tr\<rparr>"
  define c2 where "c2 = c1\<lparr>Parents := Parents c1 @ ps\<rparr>"
  have 0: "''tree '' @ hex_encode tr @ [LF] @ concat (map parent_line ps)
             @ ''author '' @ user_line u tm @ rest = ''tree '' @ dt"
    by (simp add: dt_def dl_def dp_def da_def dau_def)
  have 1: "consumeString (''tree '' @ dt) ''tree '' = (dt, True)"
    by (rule consumeString_append)
  have 2: "consumeHex (Tree zero_commit) dt = (tr, dl, None)"
    unfolding dt_def using t by (intro consumeHex_encode) (simp add: zero_commit_def zero_hash_def)
  have 3: "consumeString dl [LF] = (dp, True)"
    unfolding dl_def by (rule consumeString_append)
  have np: "consumeString da ''parent '' = (da, False)"
    by (simp add: da_def consumeString_eval)
  have 4: "parseParents c1 dp 0 = (c2, da, None)"
    unfolding dp_def c2_def using ps np by (rule parseParents_parent_lines)
  have 5: "consumeString da ''author '' = (dau, True)"
    unfolding da_def by (rule consumeString_append)
  have 6: "consumeUser dau = (u, tm, rest, None)"
    unfolding dau_def using a at by (rule consumeUser_user_line)
  have fin: "c2\<lparr>Author := u, AuthorTime := tm\<rparr>
               = zero_commit\<lparr>Tree := tr, Parents := ps, Author := u, AuthorTime := tm\<rparr>"
    by (simp add: c2_def c1_def zero_commit_def)
  show ?thesis
    unfolding 0 UnmarshalText_def
    by (simp only: 1 2 3 4 5 6 nc prod.case bool.case option.case Let_def
        c1_def [symmetric] fin)
qed

lemma UnmarshalText_cut_author:
  "UnmarshalText c cut_author
     = (zero_commit\<lparr>Tree := aa_hash, Parents := [bb_hash], Author := ''Alice <a@e>'',
                     AuthorTime := pst_time\<rparr>, Some CommitterMissingLine)"
proof -
  have e: "cut_author = ''tree '' @ hex_encode aa_hash @ [LF] @ concat (map parent_line [bb_hash])
             @ ''author '' @ user_line ''Alice <a@e>'' pst_time @ []"
    by (simp add: cut_author_def hex_encode_aa hex_encode_bb parent_line_def user_line_def
        FormatInt_pst Format_0700_pst)
  show ?thesis
    unfolding e
    by (rule UnmarshalText_cut_header)
      (simp_all add: aa_hash_def bb_hash_def git_time_pst consumeString_eval)
qed

text \<open>
  C9 fails as stated: on the cut tree line \<^verbatim>\<open>UnmarshalText\<close> returns the error
  \<open>tree: trailing data\<close> after it has overwritten the receiver (whose message was
  \<open>old\<close>) and assigned the tree, and \<^verbatim>\<open>ParseCommit\<close> returns, with the error, a
  commit that is not the zero commit.
\<close>

theorem UnmarshalText_partial_counterexample:
  "snd (UnmarshalText (zero_commit\<lparr>Message := ''old''\<rparr>) cut_commit) = Some TreeTrailingData \<and>
   fst (UnmarshalText (zero_commit\<lparr>Message := ''old''\<rparr>) cut_commit)
     \<noteq> zero_commit\<lparr>Message := ''old''\<rparr> \<and>
   Tree (fst (UnmarshalText (zero_commit\<lparr>Message := ''old''\<rparr>) cut_commit)) = aa_hash \<and>
   snd (ParseCommit cut_commit) = Some TreeTrailingData \<and>
   fst (ParseCommit cut_commit) \<noteq> zero_commit"
  using aa_hash_not_zero
  by (simp add: UnmarshalText_cut_commit ParseCommit_def zero_commit_def)

text \<open>
  C9, as amended. When \<^verbatim>\<open>UnmarshalText\<close> fails on an input that does not begin
  with \<^verbatim>\<open>tree \<close>, the error is \<open>tree: missing\<close> and the receiver is as it was.
  On every other failure the receiver has been overwritten, whatever it held: it is
  the commit \<^verbatim>\<open>ParseCommit\<close> returns with the error, and it is the zero commit
  with the fields assigned before the failure. Its tree is the bytes decoded from the
  tree line (the whole id unless the error is in the id). From the parent lines on, its
  parents are the ids of the parent lines read, and the tree id had been read without
  error. Once the author line has been parsed, its author and author time are those of
  that line, and the parent lines had been read without error. Once the committer line
  has been parsed, its committer and commit time are those of that line and its
  signature is the signature read. Its message is empty.
\<close>

theorem UnmarshalText_failure_receiver:
  assumes "UnmarshalText c data = (c', Some e)"
  shows "if snd (consumeString data ''tree '')
         then c' = fst (ParseCommit data) \<and> 1 \<le> reached e \<and>
              c' = \<lparr>Tree = fst (tree_read data),
                    Parents = (if 2 \<le> reached e then Parents (fst (parents_read data)) else []),
                    Author = (if 3 \<le> reached e then fst (author_read data) else []),
                    AuthorTime = (if 3 \<le> reached e then fst (snd (author_read data))
                                  else zero_time),
                    Committer = (if 4 \<le> reached e then fst (committer_read data) else []),
                    CommitTime = (if 4 \<le> reached e then fst (snd (committer_read data))
                                  else zero_time),
                    GPGSignature = (if 4 \<le> reached e then signature_read data else []),
                    Message = []\<rparr> \<and>
              (2 \<le> reached e \<longrightarrow> snd (snd (tree_read data)) = None) \<and>
              (3 \<le> reached e \<longrightarrow>
                 snd (snd (parents_read data)) = None \<and>
                 snd (snd (snd (author_read data))) = None) \<and>
              (4 \<le> reached e \<longrightarrow> snd (snd (snd (committer_read data))) = None)
         else c' = c \<and> e = TreeMissing"
proof (cases "snd (consumeString data ''tree '')")
  case True
  from True have "UnmarshalText c data = UnmarshalText zero_commit data"
    by (rule UnmarshalText_reset)
  with assms have "c' = fst (ParseCommit data)"
    by (simp add: ParseCommit_def)
  with True UnmarshalText_failure_fields [OF True assms] show ?thesis
    by (simp only: if_True simp_thms) blast
next
  case False
  with assms UnmarshalText_missing_tree [OF False, of c] show ?thesis by simp
qed

theorem UnmarshalText_failure_receiver_witness:
  "UnmarshalText (zero_commit\<lparr>Message := ''old''\<rparr>) cut_author
     = (zero_commit\<lparr>Tree := aa_hash, Parents := [bb_hash], Author := ''Alice <a@e>'',
                     AuthorTime := pst_time\<rparr>, Some CommitterMissingLine) \<and>
   snd (consumeString cut_author ''tree '') \<and>
   fst (ParseCommit cut_author)
     = zero_commit\<lparr>Tree := aa_hash, Parents := [bb_hash], Author := ''Alice <a@e>'',
                    AuthorTime := pst_time\<rparr> \<and>
   fst (tree_read cut_author) = aa_hash \<and>
   Parents (fst (parents_read cut_author)) = [bb_hash] \<and>
   fst (author_read cut_author) = ''Alice <a@e>'' \<and>
   fst (snd (author_read cut_author)) = pst_time \<and>
   snd (snd (tree_read cut_author)) = None \<and>
   snd (snd (parents_read cut_author)) = None \<and>
   snd (snd (snd (author_read cut_author))) = None \<and>
   UnmarshalText (zero_commit\<lparr>Message := ''old''\<rparr>) cut_commit
     = (zero_commit\<lparr>Tree := aa_hash\<rparr>, Some TreeTrailingData) \<and>
   snd (consumeString cut_commit ''tree '') \<and>
   fst (tree_read cut_commit) = aa_hash \<and>
   UnmarshalText (zero_commit\<lparr>Message := ''old''\<rparr>) ''blob''
     = (zero_commit\<lparr>Message := ''old''\<rparr>, Some TreeMissing) \<and>
   \<not> snd (consumeString ''blob'' ''tree '')"
proof -
  have 0: "UnmarshalText (zero_commit\<lparr>Message := ''old''\<rparr>) cut_author
     = (zero_commit\<lparr>Tree := aa_hash, Parents := [bb_hash], Author := ''Alice <a@e>'',
                     AuthorTime := pst_time\<rparr>, Some CommitterMissingLine)"
    by (rule UnmarshalText_cut_author)
  have 1: "UnmarshalText (zero_commit\<lparr>Message := ''old''\<rparr>) cut_commit
     = (zero_commit\<lparr>Tree := aa_hash\<rparr>, Some TreeTrailingData)"
    by (rule UnmarshalText_cut_commit)
  have 2: "UnmarshalText (zero_commit\<lparr>Message := ''old''\<rparr>) ''blob''
     = (zero_commit\<lparr>Message := ''old''\<rparr>, Some TreeMissing)"
    by (rule UnmarshalText_missing_tree) (simp add: consumeString_eval)
  have 3: "snd (consumeString cut_commit ''tree '')"
    by (simp add: cut_commit_def consumeString_eval)
  have 4: "\<not> snd (consumeString ''blob'' ''tree '')"
    by (simp add: consumeString_eval)
  have 5: "snd (consumeString cut_author ''tree '')"
    by (simp add: cut_author_def consumeString_eval)
  from UnmarshalText_failure_receiver [OF 0] 5
  have a1: "fst (ParseCommit cut_author)
              = zero_commit\<lparr>Tree := aa_hash, Parents := [bb_hash], Author := ''Alice <a@e>'',
                             AuthorTime := pst_time\<rparr>"
    and a2: "zero_commit\<lparr>Tree := aa_hash, Parents := [bb_hash], Author := ''Alice <a@e>'',
                         AuthorTime := pst_time\<rparr>
              = \<lparr>Tree = fst (tree_read cut_author),
                 Parents = Parents (fst (parents_read cut_author)),
                 Author = fst (author_read cut_author),
                 AuthorTime = fst (snd (author_read cut_author)),
                 Committer = [], CommitTime = zero_time, GPGSignature = [], Message = []\<rparr>"
    and a3: "snd (snd (tree_read cut_author)) = None"
    and a4: "snd (snd (parents_read cut_author)) = None"
    and a5: "snd (snd (snd (author_read cut_author))) = None"
    by auto
  have a6: "fst (tree_read cut_author) = aa_hash"
    using arg_cong [OF a2, of Tree] by simp
  have a7: "Parents (fst (parents_read cut_author)) = [bb_hash]"
    using arg_cong [OF a2, of Parents] by simp
  have a8: "fst (author_read cut_author) = ''Alice <a@e>''"
    using arg_cong [OF a2, of Author] by simp
  have a9: "fst (snd (author_read cut_author)) = pst_time"
    using arg_cong [OF a2, of AuthorTime] by simp
  from UnmarshalText_failure_receiver [OF 1] 3
  have b2: "zero_commit\<lparr>Tree := aa_hash\<rparr>
              = \<lparr>Tree = fst (tree_read cut_commit), Parents = [], Author = [],
                 AuthorTime = zero_time, Committer = [], CommitTime = zero_time,
                 GPGSignature = [], Message = []\<rparr>"
    by auto
  have b3: "fst (tree_read cut_commit) = aa_hash"
    using arg_cong [OF b2, of Tree] by simp
  show ?thesis
    by (intro conjI) (rule 0 1 2 3 4 5 a1 a3 a4 a5 a6 a7 a8 a9 b3)+
qed

section \<open>Properties of the fetch stream\<close>

subsection \<open>Negotiation: capabilities, the request, the acknowledgements\<close>

lemma cap_names_distinct:
  "sideBand64KCap \<noteq> multiAckCap" "sideBand64KCap \<noteq> ofsDeltaCap" "sideBand64KCap \<noteq> noProgressCap"
  "sideBandCap \<noteq> multiAckCap" "sideBandCap \<noteq> ofsDeltaCap" "sideBandCap \<noteq> noProgressCap"
  "sideBandCap \<noteq> sideBand64KCap"
  by (simp_all add: sideBand64KCap_def sideBandCap_def multiAckCap_def ofsDeltaCap_def
      noProgressCap_def)



lemma appendLines_eq:
  assumes "list_all (\<lambda>h. length h = 20) hs" "length kw \<le> 100"
  shows "appendLines kw buf hs = Some (buf @ concat (map (\<lambda>h. data_frame (kw @ hex_encode h @ [LF])) hs))"
  using assms(1)
proof (induction hs arbitrary: buf)
  case Nil
  then show ?case by simp
next
  case (Cons h hs)
  then show ?case
    using assms(2) by (simp add: AppendString_def length_hex_encode data_frame_def)
qed

lemma commandBuf_eq:
  assumes "Want req = want0 # wants"
    and "list_all (\<lambda>h. length h = 20) (Want req)" and "list_all (\<lambda>h. length h = 20) (Have req)"
    and "length (capsString x useCaps) \<le> 65000"
  shows "commandBuf x req useCaps =
           Inr (data_frame (''want '' @ hex_encode want0 @ [SP] @ capsString x useCaps @ [LF])
                @ concat (map (\<lambda>h. data_frame (''want '' @ hex_encode h @ [LF])) wants)
                @ flush_frame
                @ concat (map (\<lambda>h. data_frame (''have '' @ hex_encode h @ [LF])) (Have req))
                @ (if HaveMore req then flush_frame else data_frame ''done''))"
proof -
  have w: "length want0 = 20" "list_all (\<lambda>h. length h = 20) wants"
    using assms(1,2) by simp_all
  have 1: "AppendString [] (''want '' @ hex_encode want0 @ [SP] @ capsString x useCaps @ [LF])
             = Some (data_frame (''want '' @ hex_encode want0 @ [SP] @ capsString x useCaps @ [LF]))"
    using assms(4) w(1) by (simp add: AppendString_def data_frame_def length_hex_encode)
  have 2: "AppendString buf ''done'' = Some (buf @ data_frame ''done'')" for buf
    by (simp add: AppendString_def data_frame_def)
  have aw: "appendLines ''want '' buf wants
      = Some (buf @ concat (map (\<lambda>h. data_frame (''want '' @ hex_encode h @ [LF])) wants))" for buf
    by (rule appendLines_eq [OF w(2)]) simp
  have ah: "appendLines ''have '' buf (Have req)
      = Some (buf @ concat (map (\<lambda>h. data_frame (''have '' @ hex_encode h @ [LF])) (Have req)))" for buf
    by (rule appendLines_eq [OF assms(3)]) simp
  show ?thesis
    unfolding commandBuf_def assms(1)
    by (simp only: list.case 1 option.case aw ah
        AppendFlush_def flush_frame_def [symmetric] 2 append_assoc split: if_splits)
      simp
qed

lemma negotiate_posted:
  "selectCaps f req = Inr useCaps \<Longrightarrow> commandBuf x req useCaps = Inr buf \<Longrightarrow>
   fst (negotiate x f prefix req) = [(v1ExtraParams, buf)]"
  by (simp add: negotiate_def Let_def split: sum.splits prod.splits option.splits)

text \<open>
  C5. For a request with a non-empty want list, on a stream that offers a side-band
  variant, \<^verbatim>\<open>negotiate\<close> posts exactly one request to the transport, with the extra
  parameter \<^verbatim>\<open>version=1\<close>, and its body is, in this order: the data frame
  \<^verbatim>\<open>want\<close>, first id, the selected capabilities; one data frame \<^verbatim>\<open>want\<close> per
  further id; a flush frame; one data frame \<^verbatim>\<open>have\<close> per id; and a flush frame when
  \<^verbatim>\<open>HaveMore\<close> is set, the data frame \<^verbatim>\<open>done\<close> otherwise. The ids are 20 bytes
  long, as the array type has them, and the rendering of the (at most four)
  selected capabilities is short enough for a frame.
\<close>

theorem negotiate_request_format:
  assumes "Want req = want0 # wants" and "selectCaps f req = Inr useCaps"
    and "list_all (\<lambda>h. length h = 20) (Want req)" and "list_all (\<lambda>h. length h = 20) (Have req)"
    and "length (capsString x useCaps) \<le> 65000"
  shows "fst (negotiate x f prefix req) =
           [(''version=1'',
             data_frame (''want '' @ hex_encode want0 @ [SP] @ capsString x useCaps @ [LF])
             @ concat (map (\<lambda>h. data_frame (''want '' @ hex_encode h @ [LF])) wants)
             @ flush_frame
             @ concat (map (\<lambda>h. data_frame (''have '' @ hex_encode h @ [LF])) (Have req))
             @ (if HaveMore req then flush_frame else data_frame ''done''))]"
  using negotiate_posted [OF assms(2) commandBuf_eq [OF assms(1,3,4,5)], where prefix = prefix]
  by (simp add: v1ExtraParams_def)

lemma nak_no_ackPrefix: "\<not> HasPrefix nak ackPrefix"
  by (simp add: HasPrefix_def nak_def ackPrefix_def)

lemma ackLoop_found:
  "ackLoop x r acks = Inr (acks', found, r') \<Longrightarrow> failed r = None \<Longrightarrow>
   found = terminal_ack_seen (pending r)"
proof (induction x r acks rule: ackLoop.induct)
  case (1 x r acks)
  show ?case
  proof (cases "pending r")
    case Nil
    with "1.prems" show ?thesis
      by (subst (asm) ackLoop.simps) (auto simp: Next_def terminal_ack_seen_def)
  next
    case (Cons p ps)
    define r1 where "r1 = r\<lparr>current := Some p, pending := ps\<rparr>"
    have nx: "Next r = (True, r1)"
      using Cons "1.prems"(2) by (simp add: Next_def r1_def)
    have f1: "failed r1 = None" "pending r1 = ps" "current r1 = Some p"
      using "1.prems"(2) by (simp_all add: r1_def)
    show ?thesis
    proof (cases p)
      case (DataPkt bs)
      then have tx: "Text r1 = Inr (trimLF bs)"
        using f1 by (simp add: Text_def)
      show ?thesis
      proof (cases "HasPrefix (trimLF bs) ackPrefix")
        case ack: True
        then have nn: "trimLF bs \<noteq> nak" using nak_no_ackPrefix by auto
        define line where "line = drop (length ackPrefix) (trimLF bs)"
        have ll: "length (trimLF bs) = length ackPrefix + length line"
          using ack by (simp add: line_def HasPrefix_def)
        show ?thesis
        proof (cases "40 > length line")
          case True
          with "1.prems"(1) nx tx ack show ?thesis
            by (subst (asm) ackLoop.simps) (simp add: Let_def line_def)
        next
          case long: False
          show ?thesis
          proof (cases "ParseSHA1 x (take 40 line)")
            case (Inl e)
            with "1.prems"(1) nx tx ack long show ?thesis
              by (subst (asm) ackLoop.simps) (simp add: Let_def line_def)
          next
            case (Inr oid)
            show ?thesis
            proof (cases "length line = 40")
              case True
              with "1.prems"(1) nx tx ack long Inr have "found"
                by (subst (asm) ackLoop.simps) (simp add: Let_def line_def)
              moreover have "terminal_ack_seen (pending r)"
                using Cons DataPkt ack nn ll True by (simp add: terminal_ack_seen_def)
              ultimately show ?thesis by simp
            next
              case False
              with long have st: "drop 40 line \<noteq> []" by simp
              show ?thesis
              proof (cases "drop 40 line = ''continue''")
                case True
                with "1.prems"(1) nx tx ack long Inr st
                have rec: "ackLoop x r1 (insert oid acks) = Inr (acks', found, r')"
                  by (subst (asm) ackLoop.simps) (simp add: Let_def line_def)
                have "found = terminal_ack_seen (pending r1)"
                  by (rule "1.IH" [of True r1 "trimLF bs" line "2 * 20" oid "insert oid acks"
                        "drop (2 * 20) line"])
                    (use nx tx ack long Inr st True rec f1(1) in \<open>simp_all add: line_def\<close>)
                moreover have "terminal_ack_seen (pending r) = terminal_ack_seen ps"
                  using Cons DataPkt ack nn ll False by (simp add: terminal_ack_seen_def)
                ultimately show ?thesis using f1 by simp
              next
                case False
                with "1.prems"(1) nx tx ack long Inr st show ?thesis
                  by (subst (asm) ackLoop.simps) (simp add: Let_def line_def)
              qed
            qed
          qed
        qed
      next
        case noack: False
        show ?thesis
        proof (cases "trimLF bs = nak")
          case True
          with "1.prems"(1) nx tx noack have "\<not> found"
            by (subst (asm) ackLoop.simps) (simp add: Let_def)
          moreover have "\<not> terminal_ack_seen (pending r)"
            using Cons DataPkt True by (simp add: terminal_ack_seen_def)
          ultimately show ?thesis by simp
        next
          case False
          with "1.prems"(1) nx tx noack show ?thesis
            by (subst (asm) ackLoop.simps) (simp add: Let_def)
        qed
      qed
    next
      case FlushPkt
      then have "Text r1 = Inl UnexpectedPacket" using f1 by (simp add: Text_def)
      with "1.prems"(1) nx show ?thesis
        by (subst (asm) ackLoop.simps) simp
    next
      case DelimPkt
      then have "Text r1 = Inl UnexpectedPacket" using f1 by (simp add: Text_def)
      with "1.prems"(1) nx show ?thesis
        by (subst (asm) ackLoop.simps) simp
    next
      case ResponseEndPkt
      then have "Text r1 = Inl UnexpectedPacket" using f1 by (simp add: Text_def)
      with "1.prems"(1) nx show ?thesis
        by (subst (asm) ackLoop.simps) simp
    qed
  qed
qed

text \<open>
  C3. Whenever \<^verbatim>\<open>negotiate\<close> succeeds, its response has a packfile if and only if
  a statusless \<^verbatim>\<open>ACK\<close> line was seen in the response it read or the request had
  \<^verbatim>\<open>HaveMore\<close> unset; otherwise the response holds only the acks.
\<close>

theorem negotiate_packfile_iff:
  assumes "negotiate x f prefix req = (posted, Done resp)"
  shows "\<exists>buf frames e.
           posted = [(v1ExtraParams, buf)] \<and> impl f v1ExtraParams buf = Inr (frames, e) \<and>
           ((Packfile resp \<noteq> None) = (terminal_ack_seen frames \<or> \<not> HaveMore req))"
proof -
  from assms obtain useCaps buf frames e acks found r where
    p: "posted = [(v1ExtraParams, buf)]" and i: "impl f v1ExtraParams buf = Inr (frames, e)"
    and a: "ackLoop x (NewReader (frames, e)) {} = Inr (acks, found, r)"
    and r: "resp = \<lparr>Acks = acks,
                 Packfile =
                   (if found \<or> \<not> HaveMore req
                    then Some \<lparr>errPrefix = prefix, packReader = r, progress = Progress req\<rparr>
                    else None)\<rparr>"
    by (auto simp: negotiate_def Let_def split: sum.splits prod.splits option.splits)
  have "found = terminal_ack_seen frames"
    using ackLoop_found [OF a] by (simp add: NewReader_def)
  with p i r show ?thesis by auto
qed

lemma trimLF_snoc: "trimLF (xs @ [LF]) = xs"
  by (simp add: trimLF_def)

lemma ackLoop_statusless:
  assumes "length idtext = 40" "ParseSHA1 x idtext = Inr oid" "failed r = None"
    and "pending r = DataPkt ((''ACK '' @ idtext) @ [LF]) # rest"
  shows "ackLoop x r acks =
           Inr (insert oid acks, True,
                r\<lparr>current := Some (DataPkt ((''ACK '' @ idtext) @ [LF])), pending := rest\<rparr>)"
  using assms
  apply (subst ackLoop.simps)
  apply (simp add: Next_def Text_def trimLF_snoc del: append_assoc append.simps)
  apply (simp add: HasPrefix_def ackPrefix_def nak_def Let_def)
  done

lemma ackLoop_continue_with_space:
  assumes "length idtext = 40" "failed r = None"
    and "pending r = DataPkt ((''ACK '' @ idtext @ '' continue'') @ [LF]) # rest"
  shows "ackLoop x r acks =
           (case ParseSHA1 x idtext of
              Inl err \<Rightarrow> Inl (AckBadID err)
            | Inr oid \<Rightarrow> Inl (AckUnknownStatus '' continue''))"
  using assms
  apply (subst ackLoop.simps)
  apply (simp add: Next_def Text_def trimLF_snoc del: append_assoc append.simps)
  apply (simp add: HasPrefix_def ackPrefix_def nak_def Let_def split: sum.splits)
  done

lemma ParseSHA1_sample: "length h = 20 \<Longrightarrow> ParseSHA1 sample_externals (hex_encode h) = Inr h"
  by (simp add: sample_externals_def length_hex_encode hex_Decode_encode)

lemma selectCaps_sample: "selectCaps (sample_stream sample_caps frames) sample_request = Inr sample_useCaps"
  by (simp add: selectCaps_def sample_stream_def sample_caps_def sample_request_def
      sample_useCaps_def supports_def cap_names_distinct)

lemma capsString_sample: "capsString sample_externals sample_useCaps = ''multi_ack side-band-64k''"
  by (simp add: sample_externals_def sample_useCaps_def sample_caps_def intersect_def
      multiAckCap_def noProgressCap_def ofsDeltaCap_def sideBandCap_def sideBand64KCap_def)

lemma commandBuf_sample: "commandBuf sample_externals sample_request sample_useCaps = Inr sample_body"
proof -
  have "commandBuf sample_externals sample_request sample_useCaps =
           Inr (data_frame (''want '' @ hex_encode bb_hash @ [SP]
                  @ capsString sample_externals sample_useCaps @ [LF])
                @ concat (map (\<lambda>h. data_frame (''want '' @ hex_encode h @ [LF])) [])
                @ flush_frame
                @ concat (map (\<lambda>h. data_frame (''have '' @ hex_encode h @ [LF])) (Have sample_request))
                @ (if HaveMore sample_request then flush_frame else data_frame ''done''))"
    by (rule commandBuf_eq)
      (simp_all add: sample_request_def aa_hash_def bb_hash_def capsString_sample)
  then show ?thesis
    by (simp add: capsString_sample sample_body_def sample_request_def)
qed

lemma negotiate_unfold:
  assumes "selectCaps f req = Inr u" "commandBuf x req u = Inr buf"
    "impl f v1ExtraParams buf = Inr resp"
  shows "negotiate x f prefix req =
           (case ackLoop x (NewReader resp) {} of
              Inl err \<Rightarrow> ([(v1ExtraParams, buf)], Failed err)
            | Inr (acks, found, r) \<Rightarrow>
                (case Err r of
                   Some err \<Rightarrow> ([(v1ExtraParams, buf)], Failed (ParseResponse err))
                 | None \<Rightarrow>
                     ([(v1ExtraParams, buf)],
                      Done \<lparr>Acks = acks,
                            Packfile =
                              (if found \<or> \<not> HaveMore req
                               then Some \<lparr>errPrefix = prefix, packReader = r,
                                           progress = Progress req\<rparr>
                               else None)\<rparr>)))"
  by (simp add: negotiate_def assms Let_def)

text \<open>
  C2 does not hold of the code. After the id, the loop compares the rest of the line,
  which begins with the separating space, with \<^verbatim>\<open>continue\<close>: on the response of
  scenario S3 \<^verbatim>\<open>negotiate\<close> posts the request and fails with
  \<open>unknown status " continue"\<close>, where the claim expects the ack to be recorded
  and the next line read.
\<close>

theorem negotiate_ack_continue_fails:
  "negotiate sample_externals (sample_stream sample_caps s3_response) [] sample_request
     = ([(''version=1'', sample_body)], Failed (AckUnknownStatus '' continue''))"
proof -
  have r: "s3_response =
     [DataPkt ((''ACK '' @ hex_encode aa_hash @ '' continue'') @ [LF]), DataPkt (''NAK'' @ [LF])]"
    by (simp add: s3_response_def hex_encode_aa)
  have "ackLoop sample_externals (NewReader (s3_response, None)) {}
          = (case ParseSHA1 sample_externals (hex_encode aa_hash) of
               Inl err \<Rightarrow> Inl (AckBadID err)
             | Inr oid \<Rightarrow> Inl (AckUnknownStatus '' continue''))"
    by (rule ackLoop_continue_with_space [where rest = "[DataPkt (''NAK'' @ [LF])]"])
      (simp_all add: NewReader_def r length_hex_encode aa_hash_def)
  moreover have "ParseSHA1 sample_externals (hex_encode aa_hash) = Inr aa_hash"
    by (rule ParseSHA1_sample) (simp add: aa_hash_def)
  ultimately have a: "ackLoop sample_externals (NewReader (s3_response, None)) {}
          = Inl (AckUnknownStatus '' continue'')"
    by simp
  show ?thesis
    unfolding negotiate_unfold [OF selectCaps_sample commandBuf_sample,
        of s3_response "(s3_response, None)" "[]", simplified sample_stream_def, simplified,
        folded sample_stream_def]
    by (simp add: a v1ExtraParams_def)
qed



theorem negotiate_request_format_witness:
  "Want sample_request = [bb_hash] \<and>
   selectCaps (sample_stream sample_caps []) sample_request = Inr sample_useCaps \<and>
   list_all (\<lambda>h. length h = 20) (Want sample_request) \<and>
   list_all (\<lambda>h. length h = 20) (Have sample_request) \<and>
   length (capsString sample_externals sample_useCaps) \<le> 65000 \<and>
   fst (negotiate sample_externals (sample_stream sample_caps []) [] sample_request)
     = [(''version=1'', sample_body)]"
proof -
  have h: "Want sample_request = bb_hash # []"
    "selectCaps (sample_stream sample_caps []) sample_request = Inr sample_useCaps"
    "list_all (\<lambda>h. length h = 20) (Want sample_request)"
    "list_all (\<lambda>h. length h = 20) (Have sample_request)"
    "length (capsString sample_externals sample_useCaps) \<le> 65000"
    using selectCaps_sample [of "[]"]
    by (simp_all add: sample_request_def aa_hash_def bb_hash_def capsString_sample
        del: selectCaps_sample)
  from negotiate_request_format [OF h, of "[]"] h
  show ?thesis
    by (simp add: capsString_sample sample_body_def sample_request_def)
qed

lemma negotiate_ack_response:
  "negotiate sample_externals (sample_stream sample_caps ack_response) [] sample_request
     = ([(''version=1'', sample_body)], Done ack_result)"
proof -
  have r: "ack_response = [DataPkt ((''ACK '' @ hex_encode aa_hash) @ [LF])]"
    by (simp add: ack_response_def hex_encode_aa)
  have p: "ParseSHA1 sample_externals (hex_encode aa_hash) = Inr aa_hash"
    by (rule ParseSHA1_sample) (simp add: aa_hash_def)
  have a: "ackLoop sample_externals (NewReader (ack_response, None)) {}
          = Inr (insert aa_hash {}, True,
                 (NewReader (ack_response, None))
                   \<lparr>current := Some (DataPkt ((''ACK '' @ hex_encode aa_hash) @ [LF])),
                    pending := []\<rparr>)"
    by (rule ackLoop_statusless [OF _ p])
      (simp_all add: NewReader_def r length_hex_encode aa_hash_def)
  show ?thesis
    unfolding negotiate_unfold [OF selectCaps_sample commandBuf_sample,
        of ack_response "(ack_response, None)" "[]", simplified sample_stream_def, simplified,
        folded sample_stream_def] a
    by (simp add: v1ExtraParams_def Err_def NewReader_def ack_result_def hex_encode_aa
        sample_request_def)
qed

lemma sample_body_bytes:
  "sample_body =
     ''004awant bbbbbbbbbbbbbbbbbbbbbbbbbbbbbbbbbbbbbbbb multi_ack side-band-64k'' @ [LF] @
     ''0000'' @
     ''0032have aaaaaaaaaaaaaaaaaaaaaaaaaaaaaaaaaaaaaaaa'' @ [LF] @
     ''0000''"
proof -
  have "hex4 74 = ''004a''" "hex4 50 = ''0032''"
    by (simp_all add: hex4_def hex_digit_def char_of_def bit_Suc_0_iff)
  then show ?thesis
    by (simp add: sample_body_def data_frame_def flush_frame_def hex_encode_aa hex_encode_bb)
qed

theorem negotiate_packfile_iff_witness:
  "negotiate sample_externals (sample_stream sample_caps ack_response) [] sample_request
     = ([(''version=1'', sample_body)], Done ack_result) \<and>
   (\<exists>buf frames e.
      [(''version=1'', sample_body)] = [(v1ExtraParams, buf)] \<and>
      impl (sample_stream sample_caps ack_response) v1ExtraParams buf = Inr (frames, e) \<and>
      ((Packfile ack_result \<noteq> None) = (terminal_ack_seen frames \<or> \<not> HaveMore sample_request))) \<and>
   Packfile ack_result \<noteq> None \<and> terminal_ack_seen ack_response \<and> HaveMore sample_request"
proof -
  have "terminal_ack_seen ack_response"
    by (simp add: terminal_ack_seen_def ack_response_def trimLF_def nak_def HasPrefix_def
        ackPrefix_def)
  with negotiate_packfile_iff [OF negotiate_ack_response] negotiate_ack_response
  show ?thesis
    by (simp add: ack_result_def sample_request_def)
qed

subsection \<open>The advertisement without refs, and filtering\<close>


















lemma listRefs_filter_loop:
  "foldl (\<lambda>out r. foldl (\<lambda>out prefix. if HasPrefix (Name r) prefix then out @ [r] else out)
                         out ps) acc rs
     = acc @ concat (map (\<lambda>r. map (\<lambda>p. r) (filter (HasPrefix (Name r)) ps)) rs)"
proof (induction rs arbitrary: acc)
  case Nil
  then show ?case by simp
next
  case (Cons r rs)
  have "foldl (\<lambda>out prefix. if HasPrefix (Name r) prefix then out @ [r] else out) acc ps
          = acc @ map (\<lambda>p. r) (filter (HasPrefix (Name r)) ps)" for acc
    by (induction ps arbitrary: acc) simp_all
  with Cons show ?case by simp
qed

lemma listRefs_drained:
  "refsReader f = None \<Longrightarrow>
   listRefs x f ps =
     (f, if ps = [] then refs f
         else concat (map (\<lambda>r. map (\<lambda>p. r) (filter (HasPrefix (Name r)) ps)) (refs f)),
      refsError f)"
  by (simp add: listRefs_def listRefs_filter_loop)

lemma listRefs_drained_set:
  "refsReader f = None \<Longrightarrow> ps \<noteq> [] \<Longrightarrow>
   set (fst (snd (listRefs x f ps))) = {r \<in> set (refs f). \<exists>p\<in>set ps. HasPrefix (Name r) p}"
  by (auto simp: listRefs_drained)

text \<open>
  C7 does not hold of the code: the inner loop over the prefixes has no \<^verbatim>\<open>break\<close>,
  so a ref is appended once for every prefix it matches. With the prefixes
  \<^verbatim>\<open>refs/\<close> and \<^verbatim>\<open>refs/heads/\<close> the ref \<^verbatim>\<open>refs/heads/main\<close> is returned twice.
  (As a set the result is right, see \<open>listRefs_drained_set\<close>, and the order is the
  server's.)
\<close>

theorem listRefs_duplicates:
  "listRefs x (drained_stream [main_ref]) [''refs/'', ''refs/heads/'']
     = (drained_stream [main_ref], [main_ref, main_ref], None)"
  by (simp add: listRefs_drained drained_stream_def main_ref_def HasPrefix_def)

end
